theory Spec2Isabelle
  imports Complex_Main "HOL-Library.Multiset" "HOL-Library.Char_ord" "HOL-Library.List_Lexorder" "HOL-Library.Product_Lexorder"
begin

section \<open>Python strings and numbers\<close>

text \<open>
  A Python \<open>str\<close> is modelled as an Isabelle \<open>string\<close>; a \<open>char\<close> stands for the code
  point of the same number, so the model covers the strings over U+0000 .. U+00FF.
  \<open>str(n)\<close> of an integer is its decimal numeral.
\<close>

definition digit_char :: "nat \<Rightarrow> char" where
  "digit_char d = char_of (48 + d)"

fun str_nat :: "nat \<Rightarrow> string" where
  "str_nat n = (if n < 10 then [digit_char n] else str_nat (n div 10) @ [digit_char (n mod 10)])"

declare str_nat.simps [simp del]

definition str_int :: "int \<Rightarrow> string" where
  "str_int i = (if i < 0 then CHR ''-'' # str_nat (nat (- i)) else str_nat (nat i))"


section \<open>Python values and string methods\<close>

text \<open>
  The scalar values a JSON document or a record holds: \<open>None\<close>, booleans, integers and
  strings. Floating-point field values are outside the model.
\<close>

datatype pyval = PNone | PBool bool | PInt int | PStr string

text \<open>\<open>str(value)\<close> of a scalar.\<close>

fun py_str :: "pyval \<Rightarrow> string" where
  "py_str PNone = ''None''"
| "py_str (PBool b) = (if b then ''True'' else ''False'')"
| "py_str (PInt i) = str_int i"
| "py_str (PStr s) = s"

text \<open>\<open>a == b\<close> on scalars: a boolean equals the integer 0 or 1.\<close>

fun py_eq :: "pyval \<Rightarrow> pyval \<Rightarrow> bool" where
  "py_eq PNone PNone = True"
| "py_eq (PBool a) (PBool b) = (a = b)"
| "py_eq (PBool a) (PInt j) = (j = (if a then 1 else 0))"
| "py_eq (PInt i) (PBool b) = (i = (if b then 1 else 0))"
| "py_eq (PInt i) (PInt j) = (i = j)"
| "py_eq (PStr s) (PStr t) = (s = t)"
| "py_eq x y = False"

text \<open>
  A value as \<open>json.load\<close> returns it: a scalar, a list, or a dictionary kept as an
  association list in insertion order (the keys of a dictionary are distinct; a lookup
  takes the first pair with the key).
\<close>

datatype json = JScalar pyval | JList "json list" | JObj "(string \<times> json) list"

text \<open>The exceptions the modelled code can raise.\<close>

datatype py_exception =
  TypeError | ValueError | OverflowError | AttributeError | KeyError | OSError

text \<open>
  \<open>str.isspace\<close> on the code points below 256: TAB .. CR, FS .. US, the space, NEL and
  the no-break space. \<open>str.strip()\<close> removes such characters at both ends.
\<close>

definition py_isspace :: "char \<Rightarrow> bool" where
  "py_isspace c =
     (let n = (of_char c :: nat)
      in (9 \<le> n \<and> n \<le> 13) \<or> (28 \<le> n \<and> n \<le> 32) \<or> n = 133 \<or> n = 160)"

definition py_rstrip :: "string \<Rightarrow> string" where
  "py_rstrip s = rev (dropWhile py_isspace (rev s))"

definition py_strip :: "string \<Rightarrow> string" where
  "py_strip s = py_rstrip (dropWhile py_isspace s)"

text \<open>A string is tight when \<open>strip()\<close> leaves it as it is: no whitespace at either end.\<close>

definition tight :: "string \<Rightarrow> bool" where
  "tight s = (s = [] \<or> (\<not> py_isspace (hd s) \<and> \<not> py_isspace (last s)))"

text \<open>\<open>s.replace('Z', '+00:00')\<close>\<close>

definition replace_Z :: "string \<Rightarrow> string" where
  "replace_Z s = concat (map (\<lambda>c. if c = CHR ''Z'' then ''+00:00'' else [c]) s)"

text \<open>\<open>d[k] = v\<close> on a dictionary kept as an association list in insertion order.\<close>

fun dict_set :: "'k \<Rightarrow> 'v \<Rightarrow> ('k \<times> 'v) list \<Rightarrow> ('k \<times> 'v) list" where
  "dict_set k v [] = [(k, v)]"
| "dict_set k v ((k', v') # d) = (if k' = k then (k, v) # d else (k', v') # dict_set k v d)"

text \<open>\<open>d.get(k, default)\<close>\<close>

definition dict_get :: "('k \<times> 'v) list \<Rightarrow> 'k \<Rightarrow> 'v \<Rightarrow> 'v" where
  "dict_get d k dflt = (case map_of d k of None \<Rightarrow> dflt | Some v \<Rightarrow> v)"


subsection \<open>Stripping\<close>

lemma py_rstrip_append_space: "\<forall>c\<in>set b. py_isspace c \<Longrightarrow> py_rstrip (s @ b) = py_rstrip s"
  using dropWhile_append2 [of "rev b" py_isspace "rev s"] by (simp add: py_rstrip_def)

lemma py_rstrip_last: "s \<noteq> [] \<Longrightarrow> \<not> py_isspace (last s) \<Longrightarrow> py_rstrip s = s"
  by (cases s rule: rev_cases) (simp_all add: py_rstrip_def)

lemma py_rstrip_Nil: "py_rstrip [] = []"
  by (simp add: py_rstrip_def)

lemma py_strip_Nil: "py_strip [] = []"
  by (simp add: py_strip_def py_rstrip_def)

lemma py_strip_tight: "tight s \<Longrightarrow> py_strip s = s"
proof (cases s)
  case Nil
  then show ?thesis by (simp add: py_strip_Nil)
next
  case (Cons c cs)
  assume "tight s"
  then have "\<not> py_isspace c" "\<not> py_isspace (last s)" using Cons by (simp_all add: tight_def)
  then show ?thesis using Cons by (simp add: py_strip_def py_rstrip_last)
qed

lemma py_strip_indent: "\<forall>c\<in>set a. py_isspace c \<Longrightarrow> py_strip (a @ s) = py_strip s"
  by (simp add: py_strip_def dropWhile_append2)

lemma py_strip_trailing:
  assumes "\<forall>c\<in>set b. py_isspace c" and "s \<noteq> []" and "\<not> py_isspace (hd s)"
  shows "py_strip (s @ b) = py_strip s"
proof -
  obtain c cs where s: "s = c # cs" using assms(2) by (cases s) auto
  then have "dropWhile py_isspace (s @ b) = s @ b" "dropWhile py_isspace s = s"
    using assms(3) by simp_all
  then show ?thesis using assms(1) by (simp add: py_strip_def py_rstrip_append_space)
qed

lemma isspace_LF: "py_isspace (CHR 0x0A)" and isspace_space: "py_isspace (CHR '' '')"
  by (simp_all add: py_isspace_def)


section \<open>validator.py: ValidationResult\<close>

datatype ValidationStatus = PASSED | PASSED_WITH_WARNINGS | FAILED | SKIPPED | ERROR

text \<open>
  The object's attributes. \<open>start_time\<close> and \<open>end_time\<close> hold clock readings (or None);
  \<open>metadata\<close> is the dictionary of summary values, in insertion order.
\<close>

record ValidationResult =
  name :: string
  status :: ValidationStatus
  checks_performed :: nat
  passed_checks :: nat
  warnings :: "string list"
  errors :: "string list"
  critical_errors :: "string list"
  info_messages :: "string list"
  start_time :: "nat option"
  end_time :: "nat option"
  metadata :: "(string \<times> json) list"

text \<open>\<open>ValidationResult.__init__\<close>\<close>

definition init_result :: "string \<Rightarrow> ValidationResult" where
  "init_result nm =
     \<lparr>name = nm, status = PASSED, checks_performed = 0, passed_checks = 0,
      warnings = [], errors = [], critical_errors = [], info_messages = [],
      start_time = None, end_time = None, metadata = []\<rparr>"

text \<open>
  \<open>add_check(passed, message=None)\<close>: the message is recorded only when the check
  failed and the message is truthy (neither None nor the empty string).
\<close>

definition add_check :: "bool \<Rightarrow> string option \<Rightarrow> ValidationResult \<Rightarrow> ValidationResult" where
  "add_check passed message r =
     (let r1 = r\<lparr>checks_performed := checks_performed r + 1\<rparr>
      in if passed then r1\<lparr>passed_checks := passed_checks r1 + 1\<rparr>
         else (case message of
                 None \<Rightarrow> r1
               | Some m \<Rightarrow> if m \<noteq> [] then r1\<lparr>errors := errors r1 @ [m]\<rparr> else r1))"

definition add_warning :: "string \<Rightarrow> ValidationResult \<Rightarrow> ValidationResult" where
  "add_warning message r =
     (let r1 = r\<lparr>warnings := warnings r @ [message]\<rparr>
      in if status r1 = PASSED then r1\<lparr>status := PASSED_WITH_WARNINGS\<rparr> else r1)"

definition add_error :: "string \<Rightarrow> bool \<Rightarrow> ValidationResult \<Rightarrow> ValidationResult" where
  "add_error message critical r =
     (if critical
      then r\<lparr>critical_errors := critical_errors r @ [message], status := FAILED\<rparr>
      else (let r1 = r\<lparr>errors := errors r @ [message]\<rparr>
            in if status r1 \<in> {PASSED, PASSED_WITH_WARNINGS}
               then r1\<lparr>status := FAILED\<rparr> else r1))"

definition add_info :: "string \<Rightarrow> ValidationResult \<Rightarrow> ValidationResult" where
  "add_info message r = r\<lparr>info_messages := info_messages r @ [message]\<rparr>"

text \<open>A call of one of the four recording methods, and a sequence of such calls.\<close>

datatype result_call =
    AddCheck bool "string option"
  | AddWarning string
  | AddError string bool
  | AddInfo string

fun apply_call :: "result_call \<Rightarrow> ValidationResult \<Rightarrow> ValidationResult" where
  "apply_call (AddCheck p m) r = add_check p m r"
| "apply_call (AddWarning m) r = add_warning m r"
| "apply_call (AddError m c) r = add_error m c r"
| "apply_call (AddInfo m) r = add_info m r"

definition apply_calls :: "result_call list \<Rightarrow> ValidationResult \<Rightarrow> ValidationResult" where
  "apply_calls cs r = fold apply_call cs r"

text \<open>The escalation order of the three statuses a result moves through.\<close>

fun status_rank :: "ValidationStatus \<Rightarrow> nat" where
  "status_rank PASSED = 0"
| "status_rank PASSED_WITH_WARNINGS = 1"
| "status_rank FAILED = 2"
| "status_rank SKIPPED = 0"
| "status_rank ERROR = 0"

fun is_add_check :: "result_call \<Rightarrow> bool" where
  "is_add_check (AddCheck p m) = True"
| "is_add_check c = False"

text \<open>The statuses a result can have when only the recording methods touch it.\<close>

definition three_state :: "ValidationStatus \<Rightarrow> bool" where
  "three_state s = (s \<in> {PASSED, PASSED_WITH_WARNINGS, FAILED})"


subsection \<open>The status state machine\<close>


lemma status_add_check: "status (add_check p m r) = status r"
  by (simp add: add_check_def Let_def split: option.splits)

lemma status_add_info: "status (add_info m r) = status r"
  by (simp add: add_info_def)

lemma status_add_warning:
  "status (add_warning m r) = (if status r = PASSED then PASSED_WITH_WARNINGS else status r)"
  by (simp add: add_warning_def Let_def)

lemma status_add_error_critical: "status (add_error m True r) = FAILED"
  by (simp add: add_error_def)

lemma status_add_error_plain:
  "status (add_error m False r) =
     (if status r \<in> {PASSED, PASSED_WITH_WARNINGS} then FAILED else status r)"
  by (simp add: add_error_def Let_def)

lemma status_add_error:
  "status (add_error m c r) =
     (if c \<or> status r \<in> {PASSED, PASSED_WITH_WARNINGS} then FAILED else status r)"
  by (cases c) (simp_all add: status_add_error_critical status_add_error_plain)

lemma status_apply_call_cases:
  "status (apply_call c r) = status r \<or> status (apply_call c r) = FAILED \<or>
   (status r = PASSED \<and> status (apply_call c r) = PASSED_WITH_WARNINGS)"
  by (cases c) (auto simp: status_add_check status_add_info status_add_warning status_add_error)

lemma apply_calls_Nil: "apply_calls [] r = r"
  by (simp add: apply_calls_def)

lemma apply_calls_Cons: "apply_calls (c # cs) r = apply_calls cs (apply_call c r)"
  by (simp add: apply_calls_def)

lemma apply_calls_append: "apply_calls (cs @ ds) r = apply_calls ds (apply_calls cs r)"
  by (simp add: apply_calls_def)


lemma three_state_apply_call: "three_state (status r) \<Longrightarrow> three_state (status (apply_call c r))"
  using status_apply_call_cases [of c r] by (auto simp: three_state_def)

lemma three_state_apply_calls: "three_state (status r) \<Longrightarrow> three_state (status (apply_calls cs r))"
  by (induction cs arbitrary: r) (simp_all add: apply_calls_Nil apply_calls_Cons three_state_apply_call)

lemma reachable_three_state: "three_state (status (apply_calls cs (init_result nm)))"
  by (rule three_state_apply_calls) (simp add: three_state_def init_result_def)

lemma failed_apply_call: "status r = FAILED \<Longrightarrow> status (apply_call c r) = FAILED"
  using status_apply_call_cases [of c r] by auto

lemma failed_apply_calls: "status r = FAILED \<Longrightarrow> status (apply_calls cs r) = FAILED"
  by (induction cs arbitrary: r) (simp_all add: apply_calls_Nil apply_calls_Cons failed_apply_call)

lemma not_passed_apply_call: "status r \<noteq> PASSED \<Longrightarrow> status (apply_call c r) \<noteq> PASSED"
  using status_apply_call_cases [of c r] by auto

lemma not_passed_apply_calls: "status r \<noteq> PASSED \<Longrightarrow> status (apply_calls cs r) \<noteq> PASSED"
  by (induction cs arbitrary: r) (simp_all add: apply_calls_Nil apply_calls_Cons not_passed_apply_call)

lemma rank_apply_call:
  "three_state (status r) \<Longrightarrow> status_rank (status r) \<le> status_rank (status (apply_call c r))"
  using status_apply_call_cases [of c r] by (auto simp: three_state_def)

lemma rank_apply_calls:
  "three_state (status r) \<Longrightarrow> status_rank (status r) \<le> status_rank (status (apply_calls cs r))"
proof (induction cs arbitrary: r)
  case Nil
  show ?case by (simp add: apply_calls_Nil)
next
  case (Cons c cs)
  have "status_rank (status r) \<le> status_rank (status (apply_call c r))"
    using Cons.prems by (rule rank_apply_call)
  also have "\<dots> \<le> status_rank (status (apply_calls cs (apply_call c r)))"
    using Cons.prems by (intro Cons.IH three_state_apply_call)
  finally show ?case by (simp add: apply_calls_Cons)
qed

text \<open>
  C3. A result starts at PASSED. \<open>add_warning\<close> moves PASSED to PASSED_WITH_WARNINGS and
  leaves every other status; \<open>add_error\<close> with \<open>critical=True\<close> always sets FAILED;
  \<open>add_error\<close> with \<open>critical=False\<close> sets FAILED from PASSED and PASSED_WITH_WARNINGS,
  hence from every status a result can have after any sequence of recording calls; under
  every further sequence of calls the status never falls in rank, FAILED stays FAILED and
  PASSED_WITH_WARNINGS never returns to PASSED.
\<close>

theorem validation_status_state_machine:
  "status (init_result nm) = PASSED
   \<and> (\<forall>r m. status (add_warning m r) =
          (if status r = PASSED then PASSED_WITH_WARNINGS else status r))
   \<and> (\<forall>r m. status (add_error m True r) = FAILED)
   \<and> (\<forall>r m. status r \<in> {PASSED, PASSED_WITH_WARNINGS} \<longrightarrow> status (add_error m False r) = FAILED)
   \<and> (\<forall>cs. status (apply_calls cs (init_result nm)) \<in> {PASSED, PASSED_WITH_WARNINGS, FAILED})
   \<and> (\<forall>cs m. status (add_error m False (apply_calls cs (init_result nm))) = FAILED)
   \<and> (\<forall>cs cs'. status_rank (status (apply_calls cs (init_result nm)))
          \<le> status_rank (status (apply_calls cs' (apply_calls cs (init_result nm)))))
   \<and> (\<forall>r cs. status r = FAILED \<longrightarrow> status (apply_calls cs r) = FAILED)
   \<and> (\<forall>r cs. status r = PASSED_WITH_WARNINGS \<longrightarrow> status (apply_calls cs r) \<noteq> PASSED)"
proof (intro conjI allI impI)
  show "status (init_result nm) = PASSED" by (simp add: init_result_def)
next
  fix r m show "status (add_warning m r) = (if status r = PASSED then PASSED_WITH_WARNINGS else status r)"
    by (rule status_add_warning)
next
  fix r m show "status (add_error m True r) = FAILED" by (rule status_add_error_critical)
next
  fix r :: ValidationResult and m assume "status r \<in> {PASSED, PASSED_WITH_WARNINGS}"
  then show "status (add_error m False r) = FAILED" by (simp add: status_add_error_plain)
next
  fix cs show "status (apply_calls cs (init_result nm)) \<in> {PASSED, PASSED_WITH_WARNINGS, FAILED}"
    using reachable_three_state [of cs nm] by (simp add: three_state_def)
next
  fix cs m show "status (add_error m False (apply_calls cs (init_result nm))) = FAILED"
    using reachable_three_state [of cs nm] by (auto simp: three_state_def status_add_error_plain)
next
  fix cs cs'
  show "status_rank (status (apply_calls cs (init_result nm)))
          \<le> status_rank (status (apply_calls cs' (apply_calls cs (init_result nm))))"
    by (rule rank_apply_calls) (rule reachable_three_state)
next
  fix r :: ValidationResult and cs assume "status r = FAILED"
  then show "status (apply_calls cs r) = FAILED" by (rule failed_apply_calls)
next
  fix r :: ValidationResult and cs assume "status r = PASSED_WITH_WARNINGS"
  then show "status (apply_calls cs r) \<noteq> PASSED" by (intro not_passed_apply_calls) simp
qed

theorem validation_status_state_machine_witness:
  "status (add_error ''e'' True (init_result ''n'')) = FAILED
   \<and> status (apply_calls [AddWarning ''w'', AddCheck True None, AddInfo ''i'']
        (add_error ''e'' True (init_result ''n''))) = FAILED
   \<and> status (add_warning ''w'' (init_result ''n'')) = PASSED_WITH_WARNINGS
   \<and> status (apply_calls [AddCheck False (Some ''c''), AddInfo ''i'']
        (add_warning ''w'' (init_result ''n''))) \<noteq> PASSED
   \<and> status (init_result ''n'') \<in> {PASSED, PASSED_WITH_WARNINGS}
   \<and> status (add_error ''e'' False (init_result ''n'')) = FAILED"
  using validation_status_state_machine [of "''n''"]
  by (simp add: add_error_def add_warning_def init_result_def)

lemma add_check_only_status: "list_all is_add_check cs \<Longrightarrow> status (apply_calls cs r) = status r"
proof (induction cs arbitrary: r)
  case Nil
  show ?case by (simp add: apply_calls_Nil)
next
  case (Cons c cs)
  then obtain p m where c: "c = AddCheck p m" by (cases c) auto
  have "status (apply_calls cs (apply_call c r)) = status (apply_call c r)"
    using Cons.prems by (intro Cons.IH) simp
  then show ?case by (simp add: apply_calls_Cons c status_add_check)
qed

text \<open>
  C10. \<open>add_check\<close> changes \<open>checks_performed\<close>, \<open>passed_checks\<close> and (for a failed
  check with a non-empty message) \<open>errors\<close>, and nothing else; in particular the status
  is unchanged, and a result that has only seen \<open>add_check\<close> calls is still PASSED.
\<close>

theorem add_check_frame:
  "add_check p m r =
     r\<lparr>checks_performed := checks_performed r + 1,
       passed_checks := (if p then passed_checks r + 1 else passed_checks r),
       errors := (case m of
                    None \<Rightarrow> errors r
                  | Some t \<Rightarrow> if \<not> p \<and> t \<noteq> [] then errors r @ [t] else errors r)\<rparr>
   \<and> status (add_check p m r) = status r
   \<and> (\<forall>cs nm. list_all is_add_check cs \<longrightarrow> status (apply_calls cs (init_result nm)) = PASSED)"
proof (intro conjI allI impI)
  show "add_check p m r =
     r\<lparr>checks_performed := checks_performed r + 1,
       passed_checks := (if p then passed_checks r + 1 else passed_checks r),
       errors := (case m of
                    None \<Rightarrow> errors r
                  | Some t \<Rightarrow> if \<not> p \<and> t \<noteq> [] then errors r @ [t] else errors r)\<rparr>"
    by (cases m) (simp_all add: add_check_def Let_def)
next
  show "status (add_check p m r) = status r" by (rule status_add_check)
next
  fix cs nm assume "list_all is_add_check cs"
  then show "status (apply_calls cs (init_result nm)) = PASSED"
    by (simp add: add_check_only_status init_result_def)
qed

theorem add_check_frame_witness:
  "list_all is_add_check [AddCheck False (Some ''bad''), AddCheck False None]
   \<and> status (apply_calls [AddCheck False (Some ''bad''), AddCheck False None] (init_result ''n'')) = PASSED
   \<and> errors (apply_calls [AddCheck False (Some ''bad''), AddCheck False None] (init_result ''n'')) = [''bad'']"
  using add_check_frame [of False "Some ''bad''" "init_result ''n''"]
  by (simp add: apply_calls_def add_check_def init_result_def)



section \<open>validator.py: change-list (.apl) validation\<close>

text \<open>
  The validator applies the interpreter's operations to whatever \<open>json.load\<close> returned,
  and each of them raises on a value of the wrong type. An exception that leaves a method
  is recorded with the operation that raised it and the value it was applied to; the
  state reached when it was raised stays as it is, because the result object is updated
  in place.
\<close>

datatype py_operation = Contains | GetItem | Hash | Len | Iter | GetAttr string

type_synonym raised = "py_exception \<times> py_operation \<times> json"

text \<open>\<open>sub in s\<close> on strings.\<close>

fun contains_str :: "string \<Rightarrow> string \<Rightarrow> bool" where
  "contains_str sub [] = (sub = [])"
| "contains_str sub (c # cs) = (take (length sub) (c # cs) = sub \<or> contains_str sub cs)"

text \<open>
  \<open>key in container\<close> for a string \<open>key\<close>: a key of a dictionary, an element of a list,
  a substring of a string; TypeError on any other value.
\<close>

fun py_in :: "string \<Rightarrow> json \<Rightarrow> raised + bool" where
  "py_in key (JObj items) = Inr (map_of items key \<noteq> None)"
| "py_in key (JList xs) = Inr (JScalar (PStr key) \<in> set xs)"
| "py_in key (JScalar (PStr s)) = Inr (contains_str key s)"
| "py_in key (JScalar v) = Inl (TypeError, Contains, JScalar v)"

text \<open>\<open>container[key]\<close> for a string \<open>key\<close>: only a dictionary can be indexed by a string.\<close>

fun py_getitem :: "json \<Rightarrow> string \<Rightarrow> raised + json" where
  "py_getitem (JObj items) key =
     (case map_of items key of None \<Rightarrow> Inl (KeyError, GetItem, JObj items) | Some v \<Rightarrow> Inr v)"
| "py_getitem container key = Inl (TypeError, GetItem, container)"

text \<open>\<open>len(x)\<close>, and the elements a \<open>for\<close> loop over \<open>x\<close> visits.\<close>

fun py_len :: "json \<Rightarrow> raised + nat" where
  "py_len (JObj items) = Inr (length items)"
| "py_len (JList xs) = Inr (length xs)"
| "py_len (JScalar (PStr s)) = Inr (length s)"
| "py_len (JScalar v) = Inl (TypeError, Len, JScalar v)"

fun py_iter :: "json \<Rightarrow> raised + json list" where
  "py_iter (JObj items) = Inr (map (\<lambda>kv. JScalar (PStr (fst kv))) items)"
| "py_iter (JList xs) = Inr xs"
| "py_iter (JScalar (PStr s)) = Inr (map (\<lambda>c. JScalar (PStr [c])) s)"
| "py_iter (JScalar v) = Inl (TypeError, Iter, JScalar v)"

text \<open>
  What the interpreter supplies and the model leaves open: whether
  \<open>datetime.fromisoformat\<close> accepts a string, the text \<open>str(e)\<close> of an exception, and
  \<open>str(x)\<close> of a list or a dictionary.
\<close>

record py_runtime =
  fromisoformat_accepts :: "string \<Rightarrow> bool"
  exception_text :: "raised \<Rightarrow> string"
  container_str :: "json \<Rightarrow> string"

definition json_str :: "py_runtime \<Rightarrow> json \<Rightarrow> string" where
  "json_str rt v = (case v of JScalar p \<Rightarrow> py_str p | _ \<Rightarrow> container_str rt v)"

text \<open>Statements in sequence: the second runs when the first did not raise.\<close>

definition and_then ::
  "raised option \<times> 's \<Rightarrow> ('s \<Rightarrow> raised option \<times> 's) \<Rightarrow> raised option \<times> 's" where
  "and_then m f = (case fst m of Some e \<Rightarrow> m | None \<Rightarrow> f (snd m))"

definition VALID_APL_STATUS :: "string set" where
  "VALID_APL_STATUS = {''applied'', ''failed'', ''skipped'', ''pending''}"

text \<open>
  \<open>_validate_timestamp\<close>. \<open>timestamp.replace\<close> exists on a string only; on any other
  value the attribute lookup raises AttributeError, which the method does not catch. A
  string that \<open>fromisoformat\<close> rejects raises ValueError, which it catches. An empty
  \<open>context\<close> is falsy.
\<close>

definition validate_timestamp ::
  "py_runtime \<Rightarrow> json \<Rightarrow> string \<Rightarrow> ValidationResult \<Rightarrow> raised option \<times> ValidationResult" where
  "validate_timestamp rt timestamp context r =
     (case timestamp of
        JScalar (PStr s) \<Rightarrow>
          (None,
           if fromisoformat_accepts rt (replace_Z s)
           then add_check True
                  (Some (if context \<noteq> [] then context @ '' timestamp valid'' else ''Timestamp valid'')) r
           else add_error
                  (if context \<noteq> [] then context @ '' Invalid timestamp format: '' @ s
                   else ''Invalid timestamp format: '' @ s) False r)
      | _ \<Rightarrow> (Some (AttributeError, GetAttr ''replace'', timestamp), r))"

text \<open>The messages of \<open>_validate_apl_entries\<close>, for entry number \<open>i\<close>.\<close>

definition entry_prefix :: "nat \<Rightarrow> string" where
  "entry_prefix i = ''Entry '' @ str_nat i"

definition duplicate_sequence_msg :: "nat \<Rightarrow> pyval \<Rightarrow> string" where
  "duplicate_sequence_msg i seq = entry_prefix i @ '': Duplicate sequence number '' @ py_str seq"

text \<open>
  The state of the loop is \<open>seen_sequences\<close> and the result. A Python set holds hashable
  values, the scalars, up to \<open>==\<close>; a list or a dictionary raises TypeError when hashed.
\<close>

type_synonym apl_state = "pyval list \<times> ValidationResult"

definition seen_member :: "pyval \<Rightarrow> pyval list \<Rightarrow> bool" where
  "seen_member seq seen = list_ex (\<lambda>x. py_eq x seq) seen"

text \<open>The checks on one entry that has an \<open>asset_id\<close>, in the order of the loop body.\<close>

definition check_status :: "nat \<Rightarrow> json \<Rightarrow> apl_state \<Rightarrow> raised option \<times> apl_state" where
  "check_status i entry sr =
     (case py_in ''status'' entry of
        Inl e \<Rightarrow> (Some e, sr)
      | Inr False \<Rightarrow> (None, sr)
      | Inr True \<Rightarrow>
          (case py_getitem entry ''status'' of
             Inl e \<Rightarrow> (Some e, sr)
           | Inr (JScalar st) \<Rightarrow>
               (let r1 = (if st \<notin> PStr ` VALID_APL_STATUS
                          then add_error
                                 (entry_prefix i @ '': Invalid status '' @ [CHR 0x27] @ py_str st
                                  @ [CHR 0x27]) False (snd sr)
                          else snd sr)
                in if st = PStr ''failed''
                   then (case py_in ''error'' entry of
                           Inl e \<Rightarrow> (Some e, fst sr, r1)
                         | Inr True \<Rightarrow> (None, fst sr, r1)
                         | Inr False \<Rightarrow>
                             (None, fst sr,
                              add_warning (entry_prefix i @ '': Failed status without error message'') r1))
                   else (None, fst sr, r1))
           | Inr st \<Rightarrow> (Some (TypeError, Hash, st), sr)))"

definition check_sequence :: "nat \<Rightarrow> json \<Rightarrow> apl_state \<Rightarrow> raised option \<times> apl_state" where
  "check_sequence i entry sr =
     (case py_in ''sequence'' entry of
        Inl e \<Rightarrow> (Some e, sr)
      | Inr False \<Rightarrow> (None, sr)
      | Inr True \<Rightarrow>
          (case py_getitem entry ''sequence'' of
             Inl e \<Rightarrow> (Some e, sr)
           | Inr (JScalar seq) \<Rightarrow>
               (if seen_member seq (fst sr)
                then (None, fst sr, add_error (duplicate_sequence_msg i seq) False (snd sr))
                else (None, seq # fst sr, snd sr))
           | Inr seq \<Rightarrow> (Some (TypeError, Hash, seq), sr)))"

definition check_timestamp ::
  "py_runtime \<Rightarrow> nat \<Rightarrow> json \<Rightarrow> apl_state \<Rightarrow> raised option \<times> apl_state" where
  "check_timestamp rt i entry sr =
     (case py_in ''timestamp'' entry of
        Inl e \<Rightarrow> (Some e, sr)
      | Inr False \<Rightarrow> (None, sr)
      | Inr True \<Rightarrow>
          (case py_getitem entry ''timestamp'' of
             Inl e \<Rightarrow> (Some e, sr)
           | Inr ts \<Rightarrow>
               (case validate_timestamp rt ts (entry_prefix i) (snd sr) of
                  (x, r1) \<Rightarrow> (x, fst sr, r1))))"

definition check_command :: "nat \<Rightarrow> json \<Rightarrow> apl_state \<Rightarrow> raised option \<times> apl_state" where
  "check_command i entry sr =
     (case py_in ''command'' entry of
        Inl e \<Rightarrow> (Some e, sr)
      | Inr False \<Rightarrow> (None, sr)
      | Inr True \<Rightarrow>
          (case py_getitem entry ''command'' of
             Inl e \<Rightarrow> (Some e, sr)
           | Inr (JScalar (PStr cmd)) \<Rightarrow>
               (None, fst sr,
                if py_strip cmd = []
                then add_error (entry_prefix i @ '': Invalid command'') False (snd sr)
                else snd sr)
           | Inr cmd \<Rightarrow>
               (None, fst sr, add_error (entry_prefix i @ '': Invalid command'') False (snd sr))))"

text \<open>
  The body of the loop for entry number \<open>i\<close>: an entry without \<open>asset_id\<close> is reported
  and skipped (\<open>continue\<close>).
\<close>

definition validate_apl_entry ::
  "py_runtime \<Rightarrow> nat \<Rightarrow> json \<Rightarrow> apl_state \<Rightarrow> raised option \<times> apl_state" where
  "validate_apl_entry rt i entry sr =
     (case py_in ''asset_id'' entry of
        Inl e \<Rightarrow> (Some e, sr)
      | Inr False \<Rightarrow>
          (None, fst sr, add_error (entry_prefix i @ '': Missing asset_id'') False (snd sr))
      | Inr True \<Rightarrow>
          and_then (and_then (and_then (check_status i entry sr) (check_sequence i entry))
                      (check_timestamp rt i entry))
            (check_command i entry))"

text \<open>The \<open>for i, entry in enumerate(entries)\<close> loop; an exception ends it.\<close>

fun apl_entries_loop ::
  "py_runtime \<Rightarrow> nat \<Rightarrow> json list \<Rightarrow> apl_state \<Rightarrow> raised option \<times> apl_state" where
  "apl_entries_loop rt i [] sr = (None, sr)"
| "apl_entries_loop rt i (entry # rest) sr =
     and_then (validate_apl_entry rt i entry sr) (apl_entries_loop rt (i + 1) rest)"

definition validate_apl_entries ::
  "py_runtime \<Rightarrow> json \<Rightarrow> ValidationResult \<Rightarrow> raised option \<times> ValidationResult" where
  "validate_apl_entries rt entries r =
     (case py_iter entries of
        Inl e \<Rightarrow> (Some e, r)
      | Inr es \<Rightarrow>
          (case apl_entries_loop rt 0 es ([], r) of
             (Some e, sr) \<Rightarrow> (Some e, snd sr)
           | (None, sr) \<Rightarrow>
               (None, add_check (errors (snd sr) = []) (Some ''APL entries validation'') (snd sr))))"

text \<open>The four steps of \<open>validate_apl_file\<close> on a dictionary, one per key it reads.\<close>

definition dict_entries ::
  "py_runtime \<Rightarrow> (string \<times> json) list \<Rightarrow> ValidationResult \<Rightarrow> raised option \<times> ValidationResult" where
  "dict_entries rt data r =
     (case map_of data ''entries'' of
        None \<Rightarrow> (None, r)
      | Some entries \<Rightarrow>
          (case py_len entries of
             Inl e \<Rightarrow> (Some e, r)
           | Inr n \<Rightarrow>
               validate_apl_entries rt entries
                 (add_info (''Found '' @ str_nat n @ '' entries'') r)))"

definition dict_timestamp ::
  "py_runtime \<Rightarrow> (string \<times> json) list \<Rightarrow> ValidationResult \<Rightarrow> raised option \<times> ValidationResult" where
  "dict_timestamp rt data r =
     (case map_of data ''timestamp'' of
        None \<Rightarrow> (None, r)
      | Some ts \<Rightarrow> validate_timestamp rt ts [] r)"

definition dict_user ::
  "py_runtime \<Rightarrow> (string \<times> json) list \<Rightarrow> ValidationResult \<Rightarrow> raised option \<times> ValidationResult" where
  "dict_user rt data r =
     (case map_of data ''user'' of
        None \<Rightarrow> (None, r)
      | Some u \<Rightarrow> (None, add_info (''Applied by user: '' @ json_str rt u) r))"

text \<open>\<open>stats.get\<close> exists on a dictionary only.\<close>

definition dict_summary ::
  "py_runtime \<Rightarrow> (string \<times> json) list \<Rightarrow> ValidationResult \<Rightarrow> raised option \<times> ValidationResult" where
  "dict_summary rt data r =
     (case map_of data ''summary'' of
        None \<Rightarrow> (None, r)
      | Some (JObj stats) \<Rightarrow>
          (None,
           r\<lparr>metadata :=
                dict_set ''skipped'' (dict_get stats ''skipped'' (JScalar (PInt 0)))
                  (dict_set ''failed'' (dict_get stats ''failed'' (JScalar (PInt 0)))
                     (dict_set ''applied'' (dict_get stats ''applied'' (JScalar (PInt 0)))
                        (metadata r)))\<rparr>)
      | Some stats \<Rightarrow> (Some (AttributeError, GetAttr ''get'', stats), r))"

text \<open>The body of the \<open>try\<close> block once the document is loaded.\<close>

definition validate_apl_data ::
  "py_runtime \<Rightarrow> json \<Rightarrow> ValidationResult \<Rightarrow> raised option \<times> ValidationResult" where
  "validate_apl_data rt data r =
     (case data of
        JObj items \<Rightarrow>
          and_then (and_then (and_then (dict_entries rt items r) (dict_timestamp rt items))
                      (dict_user rt items))
            (dict_summary rt items)
      | JList xs \<Rightarrow>
          validate_apl_entries rt data (add_info (''Found '' @ str_nat (length xs) @ '' items'') r)
      | JScalar v \<Rightarrow> (None, add_error ''Invalid APL structure: expected dict or list'' False r))"

text \<open>
  What \<open>validate_apl_file\<close> finds at the path: no file; a file that cannot be opened or
  read (with the text of the exception); text that is not JSON (with the decoder's
  message); or a JSON value.
\<close>

datatype apl_file = NotFound | Unreadable string | InvalidJson string | Json json

text \<open>
  \<open>validate_apl_file\<close>: \<open>filepath\<close> with its last component \<open>fname\<close>, the file found
  there, the clock readings \<open>t0\<close> and \<open>t1\<close>, and the validator's history. It returns the
  result and the new history; a missing file returns before the history is extended. Any
  exception that is not a JSON decoding error is caught by the last handler and recorded
  as a critical error.
\<close>

definition validate_apl_file ::
  "py_runtime \<Rightarrow> string \<Rightarrow> string \<Rightarrow> apl_file \<Rightarrow> nat \<Rightarrow> nat \<Rightarrow> ValidationResult list
   \<Rightarrow> ValidationResult \<times> ValidationResult list" where
  "validate_apl_file rt filepath fname file t0 t1 validation_history =
     (let r0 = (init_result (''APL File: '' @ fname))\<lparr>start_time := Some t0\<rparr>
      in case file of
           NotFound \<Rightarrow>
             ((add_error (''File not found: '' @ filepath) True r0)\<lparr>end_time := Some t1\<rparr>,
              validation_history)
         | Unreadable e \<Rightarrow>
             (let r = (add_error (''Validation error: '' @ e) True r0)\<lparr>end_time := Some t1\<rparr>
              in (r, validation_history @ [r]))
         | InvalidJson e \<Rightarrow>
             (let r = (add_error (''Invalid JSON: '' @ e) True r0)\<lparr>end_time := Some t1\<rparr>
              in (r, validation_history @ [r]))
         | Json data \<Rightarrow>
             (let r = (case validate_apl_data rt data
                              (add_check True (Some ''JSON structure valid'') r0) of
                         (Some e, r1) \<Rightarrow>
                           add_error (''Validation error: '' @ exception_text rt e) True r1
                       | (None, r1) \<Rightarrow> r1)\<lparr>end_time := Some t1\<rparr>
              in (r, validation_history @ [r])))"

text \<open>
  The entries of a loaded change list, as the loop visits them (none when the document
  has no \<open>entries\<close> or is not a dictionary or a list).
\<close>

fun entries_of :: "json \<Rightarrow> json list" where
  "entries_of (JList xs) = xs"
| "entries_of (JObj items) =
     (case map_of items ''entries'' of
        None \<Rightarrow> []
      | Some entries \<Rightarrow> (case py_iter entries of Inl e \<Rightarrow> [] | Inr es \<Rightarrow> es))"
| "entries_of (JScalar v) = []"

text \<open>
  The sequence number of an entry: the scalar under the key \<open>sequence\<close> of a
  dictionary. The value under a key of an entry has a type when the entry is a
  dictionary and the key, if present, holds a value of that type.
\<close>

fun entry_sequence :: "json \<Rightarrow> pyval option" where
  "entry_sequence (JObj items) =
     (case map_of items ''sequence'' of Some (JScalar seq) \<Rightarrow> Some seq | _ \<Rightarrow> None)"
| "entry_sequence entry = None"

fun hashable :: "json \<Rightarrow> bool" where
  "hashable (JScalar v) = True"
| "hashable v = False"

fun is_str :: "json \<Rightarrow> bool" where
  "is_str (JScalar (PStr s)) = True"
| "is_str v = False"

fun typed_key :: "string \<Rightarrow> (json \<Rightarrow> bool) \<Rightarrow> json \<Rightarrow> bool" where
  "typed_key key ty (JObj items) = (case map_of items key of None \<Rightarrow> True | Some v \<Rightarrow> ty v)"
| "typed_key key ty entry = False"

text \<open>
  An entry is well typed when it is a dictionary whose \<open>status\<close> and \<open>sequence\<close> are
  scalars and whose \<open>timestamp\<close> is a string, where present: no check of the loop body
  raises on it.
\<close>

definition well_typed_entry :: "json \<Rightarrow> bool" where
  "well_typed_entry entry =
     (typed_key ''status'' hashable entry \<and> typed_key ''sequence'' hashable entry
      \<and> typed_key ''timestamp'' is_str entry)"

text \<open>The number of entries that create the asset \<open>a\<close>.\<close>

definition is_create :: "string \<Rightarrow> json \<Rightarrow> bool" where
  "is_create a entry =
     (case entry of
        JObj items \<Rightarrow>
          map_of items ''asset_id'' = Some (JScalar (PStr a))
          \<and> map_of items ''operation'' = Some (JScalar (PStr ''create''))
      | _ \<Rightarrow> False)"

definition create_count :: "string \<Rightarrow> json list \<Rightarrow> nat" where
  "create_count a entries = length (filter (is_create a) entries)"

text \<open>
  A later result escalates an earlier one: it keeps every recorded error, stays FAILED
  once FAILED, and stays within the three statuses of the state machine.
\<close>

definition escalates :: "ValidationResult \<Rightarrow> ValidationResult \<Rightarrow> bool" where
  "escalates r r' =
     (set (errors r) \<subseteq> set (errors r') \<and> (status r = FAILED \<longrightarrow> status r' = FAILED)
      \<and> (three_state (status r) \<longrightarrow> three_state (status r')))"


subsection \<open>Duplicate sequence numbers are reported\<close>

lemma escalates_refl: "escalates r r"
  by (simp add: escalates_def)

lemma escalates_trans: "escalates r1 r2 \<Longrightarrow> escalates r2 r3 \<Longrightarrow> escalates r1 r3"
  by (auto simp: escalates_def)

lemma escalates_add_check: "escalates r (add_check p m r)"
  by (auto simp: escalates_def add_check_def Let_def split: option.splits)

lemma escalates_add_info: "escalates r (add_info m r)"
  by (simp add: escalates_def add_info_def)

lemma escalates_add_warning: "escalates r (add_warning m r)"
  by (auto simp: escalates_def add_warning_def Let_def three_state_def)

lemma escalates_add_error: "escalates r (add_error m c r)"
  by (auto simp: escalates_def add_error_def Let_def three_state_def)

lemma add_error_FAILED:
  "three_state (status r) \<Longrightarrow> status (add_error m c r) = FAILED \<and> (\<not> c \<longrightarrow> m \<in> set (errors (add_error m c r)))"
  by (auto simp: add_error_def Let_def three_state_def)

lemma py_eq_trans: "py_eq a b \<Longrightarrow> py_eq b c \<Longrightarrow> py_eq a c"
  by (cases a; cases b; cases c) (auto split: if_splits)

lemma py_eq_refl: "py_eq a a"
  by (cases a) auto

lemma seen_member_iff: "seen_member q seen \<longleftrightarrow> (\<exists>x\<in>set seen. py_eq x q)"
  by (simp add: seen_member_def list_ex_iff)

text \<open>
  An outcome reports messages when the status is FAILED and the messages are among the
  errors; when there is no message to report, an exception will do.
\<close>

definition reports :: "('s \<Rightarrow> ValidationResult) \<Rightarrow> string list \<Rightarrow> raised option \<times> 's \<Rightarrow> bool" where
  "reports res msgs out =
     ((fst out \<noteq> None \<and> msgs = [])
      \<or> (status (res (snd out)) = FAILED \<and> set msgs \<subseteq> set (errors (res (snd out)))))"

lemma reports_weaken: "reports res msgs out \<Longrightarrow> reports res [] out"
  by (auto simp: reports_def)

lemma and_then_escalates:
  assumes "escalates (res s) (res (snd m))" and "\<And>t. escalates (res t) (res (snd (f t)))"
  shows "escalates (res s) (res (snd (and_then m f)))"
  using assms by (cases "fst m") (auto simp: and_then_def intro: escalates_trans)

lemma and_then_reports:
  assumes "reports res msgs m" and "\<And>t. escalates (res t) (res (snd (f t)))"
  shows "reports res msgs (and_then m f)"
proof (cases "fst m")
  case None
  then have "status (res (snd m)) = FAILED \<and> set msgs \<subseteq> set (errors (res (snd m)))"
    using assms(1) by (simp add: reports_def)
  then show ?thesis using assms(2) [of "snd m"] None
    by (auto simp: and_then_def reports_def escalates_def)
next
  case (Some e)
  then show ?thesis using assms(1) by (simp add: and_then_def)
qed

lemma and_then_None: "fst m = None \<Longrightarrow> and_then m f = f (snd m)"
  by (simp add: and_then_def)

text \<open>The checks of the loop body: what each does to the state.\<close>

lemma escalates_validate_timestamp: "escalates r (snd (validate_timestamp rt ts cx r))"
  by (auto simp: validate_timestamp_def escalates_refl escalates_add_check escalates_add_error
      split: json.splits pyval.splits)

lemma validate_timestamp_str: "is_str ts \<Longrightarrow> fst (validate_timestamp rt ts cx r) = None"
  by (cases ts rule: is_str.cases) (simp_all add: validate_timestamp_def)

lemma check_status_state:
  "fst (snd (check_status i e sr)) = fst sr \<and> escalates (snd sr) (snd (snd (check_status i e sr)))"
  by (auto simp: check_status_def Let_def escalates_refl escalates_add_error escalates_add_warning
      intro: escalates_trans [OF escalates_add_error escalates_add_warning]
      split: sum.splits bool.splits json.splits)

lemma check_status_typed:
  "typed_key ''status'' hashable e \<Longrightarrow> fst (check_status i e sr) = None"
  by (cases e) (auto simp: check_status_def Let_def split: option.splits json.splits bool.splits)

lemma check_sequence_state:
  "escalates (snd sr) (snd (snd (check_sequence i e sr)))
   \<and> (seen_member q (fst sr) \<longrightarrow> seen_member q (fst (snd (check_sequence i e sr))))"
  by (auto simp: check_sequence_def escalates_refl escalates_add_error seen_member_iff
      split: sum.splits bool.splits json.splits)

lemma check_sequence_typed:
  "typed_key ''sequence'' hashable e \<Longrightarrow> fst (check_sequence i e sr) = None"
  by (cases e) (auto simp: check_sequence_def split: option.splits json.splits bool.splits)

lemma check_sequence_number:
  assumes "entry_sequence e = Some q"
  shows "fst (check_sequence i e sr) = None
       \<and> seen_member q (fst (snd (check_sequence i e sr)))
       \<and> (seen_member q (fst sr) \<and> three_state (status (snd sr))
            \<longrightarrow> reports snd [duplicate_sequence_msg i q] (check_sequence i e sr))"
proof -
  obtain items where e: "e = JObj items" and s: "map_of items ''sequence'' = Some (JScalar q)"
    using assms by (cases e) (auto split: option.splits json.splits)
  show ?thesis
    using add_error_FAILED [of "snd sr" "duplicate_sequence_msg i q" False]
    by (auto simp: e s check_sequence_def reports_def seen_member_iff py_eq_refl)
qed

lemma check_timestamp_state:
  "fst (snd (check_timestamp rt i e sr)) = fst sr
   \<and> escalates (snd sr) (snd (snd (check_timestamp rt i e sr)))"
  using escalates_validate_timestamp
  by (auto simp: check_timestamp_def escalates_refl split: sum.splits bool.splits prod.splits)
     (metis snd_conv)

lemma check_timestamp_typed:
  "typed_key ''timestamp'' is_str e \<Longrightarrow> fst (check_timestamp rt i e sr) = None"
  using validate_timestamp_str
  by (cases e) (auto simp: check_timestamp_def split: option.splits prod.splits bool.splits, metis fst_conv)

lemma check_command_state:
  "fst (snd (check_command i e sr)) = fst sr
   \<and> escalates (snd sr) (snd (snd (check_command i e sr)))"
  by (auto simp: check_command_def escalates_refl escalates_add_error
      split: sum.splits bool.splits json.splits pyval.splits)

lemma check_command_dict: "fst (check_command i (JObj items) sr) = None"
  by (auto simp: check_command_def split: option.splits json.splits pyval.splits bool.splits)

lemma escalates_check_sequence: "escalates (snd t) (snd (snd (check_sequence i e t)))"
  using check_sequence_state by blast

lemma escalates_check_timestamp: "escalates (snd t) (snd (snd (check_timestamp rt i e t)))"
  using check_timestamp_state by blast

lemma escalates_check_command: "escalates (snd t) (snd (snd (check_command i e t)))"
  using check_command_state by blast

text \<open>The body of the loop.\<close>

lemma validate_apl_entry_state:
  "escalates (snd sr) (snd (snd (validate_apl_entry rt i e sr)))
   \<and> (seen_member q (fst sr) \<longrightarrow> fst (validate_apl_entry rt i e sr) = None
        \<longrightarrow> seen_member q (fst (snd (validate_apl_entry rt i e sr))))"
proof (cases "py_in ''asset_id'' e")
  case (Inl x)
  then show ?thesis by (simp add: validate_apl_entry_def escalates_refl)
next
  case (Inr b)
  show ?thesis
  proof (cases b)
    case False
    then show ?thesis using Inr by (simp add: validate_apl_entry_def escalates_add_error)
  next
    case True
    let ?m1 = "check_status i e sr"
    let ?m2 = "and_then ?m1 (check_sequence i e)"
    let ?m3 = "and_then ?m2 (check_timestamp rt i e)"
    let ?m4 = "and_then ?m3 (check_command i e)"
    have v: "validate_apl_entry rt i e sr = ?m4"
      using Inr True by (simp add: validate_apl_entry_def)
    have e1: "escalates (snd sr) (snd (snd ?m1))" using check_status_state by blast
    have e2: "escalates (snd sr) (snd (snd ?m2))"
      by (rule and_then_escalates [where res = snd, OF e1 escalates_check_sequence])
    have e3: "escalates (snd sr) (snd (snd ?m3))"
      by (rule and_then_escalates [where res = snd, OF e2 escalates_check_timestamp])
    have e4: "escalates (snd sr) (snd (snd ?m4))"
      by (rule and_then_escalates [where res = snd, OF e3 escalates_check_command])
    have s: "seen_member q (fst (snd ?m4))" if q: "seen_member q (fst sr)" and n: "fst ?m4 = None"
    proof -
      have n3: "fst ?m3 = None" using n by (cases "fst ?m3") (simp_all add: and_then_def)
      have n2: "fst ?m2 = None" using n3 by (cases "fst ?m2") (simp_all add: and_then_def)
      have n1: "fst ?m1 = None" using n2 by (cases "fst ?m1") (simp_all add: and_then_def)
      have "seen_member q (fst (snd ?m1))" using q check_status_state [of i e sr] by simp
      then have "seen_member q (fst (snd ?m2))"
        using check_sequence_state [of "snd ?m1" i e q] by (simp add: and_then_None [OF n1])
      then have "seen_member q (fst (snd ?m3))"
        using check_timestamp_state [of rt i e "snd ?m2"] by (simp add: and_then_None [OF n2])
      then show ?thesis
        using check_command_state [of i e "snd ?m3"] by (simp add: and_then_None [OF n3])
    qed
    show ?thesis unfolding v using e4 s by blast
  qed
qed

text \<open>An entry without \<open>asset_id\<close> fails the validation.\<close>

lemma validate_apl_entry_missing_id:
  assumes "py_in ''asset_id'' e \<noteq> Inr True" and "three_state (status (snd sr))"
  shows "reports snd [] (validate_apl_entry rt i e sr)"
proof (cases "py_in ''asset_id'' e")
  case (Inl x)
  then show ?thesis by (simp add: validate_apl_entry_def reports_def)
next
  case (Inr b)
  then have "\<not> b" using assms(1) by simp
  then show ?thesis using Inr add_error_FAILED [OF assms(2)]
    by (simp add: validate_apl_entry_def reports_def)
qed

text \<open>An entry that repeats a sequence number already seen fails it.\<close>

lemma validate_apl_entry_repeats:
  assumes seq: "entry_sequence e = Some q" and seen: "seen_member q (fst sr)"
    and ts: "three_state (status (snd sr))"
  shows "reports snd [] (validate_apl_entry rt i e sr)"
    and "py_in ''asset_id'' e = Inr True \<Longrightarrow> typed_key ''status'' hashable e
         \<Longrightarrow> reports snd [duplicate_sequence_msg i q] (validate_apl_entry rt i e sr)"
proof -
  let ?m1 = "check_status i e sr"
  let ?m2 = "and_then ?m1 (check_sequence i e)"
  let ?m3 = "and_then ?m2 (check_timestamp rt i e)"
  let ?m4 = "and_then ?m3 (check_command i e)"
  have st1: "seen_member q (fst (snd ?m1))" "three_state (status (snd (snd ?m1)))"
    using check_status_state [of i e sr] seen ts by (simp_all add: escalates_def)
  have k: "reports snd [duplicate_sequence_msg i q] (check_sequence i e (snd ?m1))"
    using check_sequence_number [OF seq, of i "snd ?m1"] st1 by simp
  show "reports snd [] (validate_apl_entry rt i e sr)"
  proof (cases "py_in ''asset_id'' e = Inr True")
    case False
    then show ?thesis using ts by (rule validate_apl_entry_missing_id)
  next
    case True
    have "reports snd [] ?m2"
    proof (cases "fst ?m1")
      case None
      then show ?thesis using k by (simp add: and_then_None reports_def)
    next
      case (Some x)
      then show ?thesis by (simp add: and_then_def reports_def)
    qed
    then have "reports snd [] ?m3"
      by (rule and_then_reports [where res = snd, OF _ escalates_check_timestamp])
    then have "reports snd [] ?m4"
      by (rule and_then_reports [where res = snd, OF _ escalates_check_command])
    then show ?thesis using True by (simp add: validate_apl_entry_def)
  qed
  show "reports snd [duplicate_sequence_msg i q] (validate_apl_entry rt i e sr)"
    if a: "py_in ''asset_id'' e = Inr True" and t: "typed_key ''status'' hashable e"
  proof -
    have "fst ?m1 = None" using t by (rule check_status_typed)
    then have "reports snd [duplicate_sequence_msg i q] ?m2" using k by (simp add: and_then_None)
    then have "reports snd [duplicate_sequence_msg i q] ?m3"
      by (rule and_then_reports [where res = snd, OF _ escalates_check_timestamp])
    then have "reports snd [duplicate_sequence_msg i q] ?m4"
      by (rule and_then_reports [where res = snd, OF _ escalates_check_command])
    then show ?thesis using a by (simp add: validate_apl_entry_def)
  qed
qed

text \<open>An entry with \<open>asset_id\<close> leaves its sequence number among those seen.\<close>

lemma validate_apl_entry_adds:
  assumes seq: "entry_sequence e = Some a" and id: "py_in ''asset_id'' e = Inr True"
    and n: "fst (validate_apl_entry rt i e sr) = None"
  shows "seen_member a (fst (snd (validate_apl_entry rt i e sr)))"
proof -
  let ?m1 = "check_status i e sr"
  let ?m2 = "and_then ?m1 (check_sequence i e)"
  let ?m3 = "and_then ?m2 (check_timestamp rt i e)"
  let ?m4 = "and_then ?m3 (check_command i e)"
  have v: "validate_apl_entry rt i e sr = ?m4" using id by (simp add: validate_apl_entry_def)
  have n3: "fst ?m3 = None" using n unfolding v by (cases "fst ?m3") (simp_all add: and_then_def)
  have n2: "fst ?m2 = None" using n3 by (cases "fst ?m2") (simp_all add: and_then_def)
  have n1: "fst ?m1 = None" using n2 by (cases "fst ?m1") (simp_all add: and_then_def)
  have "seen_member a (fst (snd ?m2))"
    using check_sequence_number [OF seq, of i "snd ?m1"] by (simp add: and_then_None [OF n1])
  then have "seen_member a (fst (snd ?m3))"
    using check_timestamp_state [of rt i e "snd ?m2"] by (simp add: and_then_None [OF n2])
  then have "seen_member a (fst (snd ?m4))"
    using check_command_state [of i e "snd ?m3"] by (simp add: and_then_None [OF n3])
  then show ?thesis unfolding v by simp
qed

lemma validate_apl_entry_records:
  assumes seq: "entry_sequence e = Some a" and ts: "three_state (status (snd sr))"
    and n: "fst (validate_apl_entry rt i e sr) = None"
  shows "status (snd (snd (validate_apl_entry rt i e sr))) = FAILED
         \<or> seen_member a (fst (snd (validate_apl_entry rt i e sr)))"
proof (cases "py_in ''asset_id'' e = Inr True")
  case False
  then show ?thesis
    using validate_apl_entry_missing_id [OF False ts, of rt i] n by (simp add: reports_def)
next
  case True
  then show ?thesis using validate_apl_entry_adds [OF seq True n] by simp
qed

text \<open>No check raises on a well-typed entry.\<close>

lemma validate_apl_entry_well_typed:
  assumes "well_typed_entry e"
  shows "fst (validate_apl_entry rt i e sr) = None"
proof -
  obtain items where e: "e = JObj items"
    using assms by (cases e) (simp_all add: well_typed_entry_def)
  let ?m1 = "check_status i e sr"
  let ?m2 = "and_then ?m1 (check_sequence i e)"
  let ?m3 = "and_then ?m2 (check_timestamp rt i e)"
  let ?m4 = "and_then ?m3 (check_command i e)"
  have n1: "fst ?m1 = None" using assms by (simp add: well_typed_entry_def check_status_typed)
  have n2: "fst ?m2 = None"
    using assms by (simp add: and_then_None [OF n1] well_typed_entry_def check_sequence_typed)
  have n3: "fst ?m3 = None"
    using assms by (simp add: and_then_None [OF n2] well_typed_entry_def check_timestamp_typed)
  have "?m4 = check_command i e (snd ?m3)" using n3 by (rule and_then_None)
  then have n4: "fst ?m4 = None" using check_command_dict [of i items "snd ?m3"] by (simp add: e)
  show ?thesis
  proof (cases "map_of items ''asset_id''")
    case None
    then show ?thesis by (simp add: e validate_apl_entry_def)
  next
    case (Some v)
    then show ?thesis using n4 by (simp add: e validate_apl_entry_def)
  qed
qed

text \<open>The loop.\<close>

lemma escalates_validate_apl_entry:
  "escalates (snd t) (snd (snd (validate_apl_entry rt i e t)))"
  using validate_apl_entry_state by blast

lemma escalates_apl_entries_loop:
  "escalates (snd sr) (snd (snd (apl_entries_loop rt i es sr)))"
proof (induction es arbitrary: i sr)
  case Nil
  show ?case by (simp add: escalates_refl)
next
  case (Cons e es)
  show ?case
    unfolding apl_entries_loop.simps
    by (rule and_then_escalates [where res = snd, OF escalates_validate_apl_entry Cons.IH])
qed

lemma seen_member_eq: "seen_member a seen \<Longrightarrow> py_eq a q \<Longrightarrow> seen_member q seen"
  using py_eq_trans by (auto simp: seen_member_iff)

lemma loop_after_entry:
  assumes "fst (validate_apl_entry rt i e sr) = None"
  shows "apl_entries_loop rt i (e # es) sr
         = apl_entries_loop rt (i + 1) es (snd (validate_apl_entry rt i e sr))"
  using assms by (simp add: and_then_None)

lemma loop_entry_reports:
  assumes "reports snd msgs (validate_apl_entry rt i e sr)"
  shows "reports snd msgs (apl_entries_loop rt i (e # es) sr)"
  unfolding apl_entries_loop.simps
  by (rule and_then_reports [where res = snd, OF assms escalates_apl_entries_loop])

lemma loop_missing_id:
  assumes "\<exists>e\<in>set es. py_in ''asset_id'' e \<noteq> Inr True" and "three_state (status (snd sr))"
  shows "reports snd [] (apl_entries_loop rt i es sr)"
  using assms
proof (induction es arbitrary: i sr)
  case Nil
  then show ?case by simp
next
  case (Cons e es)
  let ?m = "validate_apl_entry rt i e sr"
  show ?case
  proof (cases "reports snd [] ?m")
    case True
    then show ?thesis by (rule loop_entry_reports)
  next
    case False
    then have n: "fst ?m = None" by (cases "fst ?m") (simp_all add: reports_def)
    have "py_in ''asset_id'' e = Inr True"
      using False validate_apl_entry_missing_id [OF _ Cons.prems(2), of e rt i] by blast
    then have rest: "\<exists>e\<in>set es. py_in ''asset_id'' e \<noteq> Inr True" using Cons.prems(1) by auto
    have ts: "three_state (status (snd (snd ?m)))"
      using escalates_validate_apl_entry [of sr rt i e] Cons.prems(2) by (simp add: escalates_def)
    show ?thesis unfolding loop_after_entry [OF n] using rest ts by (rule Cons.IH)
  qed
qed

text \<open>
  A sequence number that an earlier entry carries, or that was seen before the loop
  started here, fails the validation at the entry that repeats it.
\<close>

lemma loop_duplicate_fails:
  assumes "three_state (status (snd sr))" and "j < length es"
    and "entry_sequence (es ! j) = Some q"
    and "seen_member q (fst sr) \<or> (\<exists>k<j. \<exists>a. entry_sequence (es ! k) = Some a \<and> py_eq a q)"
  shows "reports snd [] (apl_entries_loop rt i es sr)"
  using assms
proof (induction es arbitrary: i sr j)
  case Nil
  then show ?case by simp
next
  case (Cons e es)
  let ?m = "validate_apl_entry rt i e sr"
  show ?case
  proof (cases "reports snd [] ?m")
    case True
    then show ?thesis by (rule loop_entry_reports)
  next
    case False
    then have n: "fst ?m = None" and nf: "status (snd (snd ?m)) \<noteq> FAILED"
      by (cases "fst ?m"; simp add: reports_def)+
    have ts: "three_state (status (snd (snd ?m)))"
      using escalates_validate_apl_entry [of sr rt i e] Cons.prems(1) by (simp add: escalates_def)
    have keep: "seen_member x (fst sr) \<Longrightarrow> seen_member x (fst (snd ?m))" for x
      using validate_apl_entry_state [of sr rt i e x] n by simp
    show ?thesis
    proof (cases j)
      case 0
      then have "entry_sequence e = Some q" "seen_member q (fst sr)"
        using Cons.prems(3,4) by simp_all
      then have "reports snd [] ?m"
        using Cons.prems(1) by (intro validate_apl_entry_repeats(1))
      then show ?thesis using False by simp
    next
      case (Suc j')
      have j': "j' < length es" "entry_sequence (es ! j') = Some q"
        using Cons.prems(2,3) Suc by simp_all
      have "seen_member q (fst (snd ?m))
            \<or> (\<exists>k<j'. \<exists>a. entry_sequence (es ! k) = Some a \<and> py_eq a q)"
        using Cons.prems(4)
      proof
        assume "seen_member q (fst sr)"
        then show ?thesis using keep by simp
      next
        assume "\<exists>k<j. \<exists>a. entry_sequence ((e # es) ! k) = Some a \<and> py_eq a q"
        then obtain k a where k: "k < j" "entry_sequence ((e # es) ! k) = Some a" "py_eq a q"
          by blast
        show ?thesis
        proof (cases k)
          case 0
          then have "entry_sequence e = Some a" using k(2) by simp
          then have "seen_member a (fst (snd ?m))"
            using validate_apl_entry_records [OF _ Cons.prems(1) n] nf by blast
          then show ?thesis using k(3) seen_member_eq by blast
        next
          case (Suc k')
          then have "k' < j'" "entry_sequence (es ! k') = Some a"
            using k(1,2) \<open>j = Suc j'\<close> by simp_all
          then show ?thesis using k(3) by blast
        qed
      qed
      then show ?thesis
        unfolding loop_after_entry [OF n] using ts j' by (intro Cons.IH)
    qed
  qed
qed

text \<open>When no entry before it raises, the error of the repeating entry is recorded.\<close>

lemma loop_reports_duplicate:
  assumes "three_state (status (snd sr))" and "j < length es"
    and "entry_sequence (es ! j) = Some q"
    and "seen_member q (fst sr) \<or> (\<exists>k<j. \<exists>a. entry_sequence (es ! k) = Some a \<and> py_eq a q)"
    and "\<forall>k\<le>j. py_in ''asset_id'' (es ! k) = Inr True"
    and "\<forall>k<j. well_typed_entry (es ! k)"
    and "typed_key ''status'' hashable (es ! j)"
  shows "reports snd [duplicate_sequence_msg (i + j) q] (apl_entries_loop rt i es sr)"
  using assms
proof (induction es arbitrary: i sr j)
  case Nil
  then show ?case by simp
next
  case (Cons e es)
  let ?m = "validate_apl_entry rt i e sr"
  show ?case
  proof (cases j)
    case 0
    then have "entry_sequence e = Some q" "seen_member q (fst sr)"
      "py_in ''asset_id'' e = Inr True" "typed_key ''status'' hashable e"
      using Cons.prems(3,4,5,7) by simp_all
    then have "reports snd [duplicate_sequence_msg i q] ?m"
      using Cons.prems(1) by (intro validate_apl_entry_repeats(2))
    then show ?thesis using 0 loop_entry_reports by simp
  next
    case (Suc j')
    have wt: "well_typed_entry e" using Cons.prems(6) Suc by auto
    have n: "fst ?m = None" using wt by (rule validate_apl_entry_well_typed)
    have a: "py_in ''asset_id'' e = Inr True" using Cons.prems(5) by auto
    have ts: "three_state (status (snd (snd ?m)))"
      using escalates_validate_apl_entry [of sr rt i e] Cons.prems(1) by (simp add: escalates_def)
    have keep: "seen_member x (fst sr) \<Longrightarrow> seen_member x (fst (snd ?m))" for x
      using validate_apl_entry_state [of sr rt i e x] n by simp
    have j': "j' < length es" "entry_sequence (es ! j') = Some q"
      using Cons.prems(2,3) Suc by simp_all
    have ids: "\<forall>k\<le>j'. py_in ''asset_id'' (es ! k) = Inr True"
      using Cons.prems(5) Suc by auto
    have wts: "\<forall>k<j'. well_typed_entry (es ! k)" using Cons.prems(6) Suc by auto
    have st: "typed_key ''status'' hashable (es ! j')" using Cons.prems(7) Suc by simp
    have "seen_member q (fst (snd ?m))
          \<or> (\<exists>k<j'. \<exists>a. entry_sequence (es ! k) = Some a \<and> py_eq a q)"
      using Cons.prems(4)
    proof
      assume "seen_member q (fst sr)"
      then show ?thesis using keep by simp
    next
      assume "\<exists>k<j. \<exists>a. entry_sequence ((e # es) ! k) = Some a \<and> py_eq a q"
      then obtain k b where k: "k < j" "entry_sequence ((e # es) ! k) = Some b" "py_eq b q"
        by blast
      show ?thesis
      proof (cases k)
        case 0
        then have "entry_sequence e = Some b" using k(2) by simp
        then have "seen_member b (fst (snd ?m))"
          using validate_apl_entry_adds [OF _ a n] by blast
        then show ?thesis using k(3) seen_member_eq by blast
      next
        case (Suc k')
        then have "k' < j'" "entry_sequence (es ! k') = Some b"
          using k(1,2) \<open>j = Suc j'\<close> by simp_all
        then show ?thesis using k(3) by blast
      qed
    qed
    then have "reports snd [duplicate_sequence_msg (i + 1 + j') q]
                 (apl_entries_loop rt (i + 1) es (snd ?m))"
      using ts j' ids wts st by (intro Cons.IH)
    then show ?thesis unfolding loop_after_entry [OF n] using Suc by simp
  qed
qed

text \<open>The entries, the document and the file.\<close>

lemma escalates_validate_apl_entries: "escalates r (snd (validate_apl_entries rt entries r))"
proof (cases "py_iter entries")
  case (Inl e)
  then show ?thesis by (simp add: validate_apl_entries_def escalates_refl)
next
  case (Inr es)
  obtain x sr where l: "apl_entries_loop rt 0 es ([], r) = (x, sr)"
    by (cases "apl_entries_loop rt 0 es ([], r)") auto
  have e: "escalates r (snd sr)"
    using escalates_apl_entries_loop [of "([], r)" rt 0 es] l by simp
  show ?thesis
  proof (cases x)
    case None
    then show ?thesis using Inr l escalates_trans [OF e escalates_add_check]
      by (simp add: validate_apl_entries_def)
  next
    case (Some a)
    then show ?thesis using Inr l e by (simp add: validate_apl_entries_def)
  qed
qed

lemma validate_apl_entries_reports:
  assumes "py_iter entries = Inr es"
    and "reports snd msgs (apl_entries_loop rt 0 es ([], r))"
  shows "reports (\<lambda>r. r) msgs (validate_apl_entries rt entries r)"
proof -
  obtain x sr where l: "apl_entries_loop rt 0 es ([], r) = (x, sr)"
    by (cases "apl_entries_loop rt 0 es ([], r)") auto
  show ?thesis
  proof (cases x)
    case None
    then have "status (snd sr) = FAILED \<and> set msgs \<subseteq> set (errors (snd sr))"
      using assms(2) l by (simp add: reports_def)
    then have "status (add_check (errors (snd sr) = []) (Some ''APL entries validation'') (snd sr))
                 = FAILED
               \<and> set msgs
                   \<subseteq> set (errors (add_check (errors (snd sr) = []) (Some ''APL entries validation'')
                                     (snd sr)))"
      using escalates_add_check [of "snd sr" "errors (snd sr) = []" "Some ''APL entries validation''"]
      by (auto simp: escalates_def)
    then show ?thesis using None assms(1) l by (simp add: validate_apl_entries_def reports_def)
  next
    case (Some a)
    then show ?thesis using assms l by (auto simp: validate_apl_entries_def reports_def)
  qed
qed

lemma py_len_iter: "py_iter v = Inr es \<Longrightarrow> \<exists>n. py_len v = Inr n"
  by (cases v rule: py_iter.cases) auto

lemma escalates_dict_timestamp: "escalates t (snd (dict_timestamp rt items t))"
  by (simp add: dict_timestamp_def escalates_refl escalates_validate_timestamp split: option.splits)

lemma escalates_dict_user: "escalates t (snd (dict_user rt items t))"
  by (simp add: dict_user_def escalates_refl escalates_add_info split: option.splits)

lemma escalates_dict_summary: "escalates t (snd (dict_summary rt items t))"
  by (auto simp: dict_summary_def escalates_def split: option.splits json.splits)

text \<open>
  What the loop over the entries reports, from any state that the recording methods can
  reach, the validation of the document reports too.
\<close>

lemma validate_apl_data_reports:
  assumes ne: "entries_of data \<noteq> []"
    and loop: "\<And>r'. three_state (status r')
                 \<Longrightarrow> reports snd msgs (apl_entries_loop rt 0 (entries_of data) ([], r'))"
    and ts: "three_state (status r)"
  shows "reports (\<lambda>r. r) msgs (validate_apl_data rt data r)"
proof (cases data)
  case (JScalar v)
  then show ?thesis using ne by simp
next
  case (JList xs)
  let ?r = "add_info (''Found '' @ str_nat (length xs) @ '' items'') r"
  have "three_state (status ?r)" using ts by (simp add: add_info_def)
  then have "reports snd msgs (apl_entries_loop rt 0 xs ([], ?r))"
    using loop [of ?r] JList by simp
  then have "reports (\<lambda>r. r) msgs (validate_apl_entries rt (JList xs) ?r)"
    by (intro validate_apl_entries_reports) simp_all
  then show ?thesis using JList by (simp add: validate_apl_data_def)
next
  case (JObj items)
  obtain v where v: "map_of items ''entries'' = Some v"
    using ne JObj by (cases "map_of items ''entries''") auto
  obtain es where es: "py_iter v = Inr es"
    using ne JObj v by (cases "py_iter v") auto
  have eo: "entries_of data = es" using JObj v es by simp
  obtain n where n: "py_len v = Inr n" using py_len_iter [OF es] by blast
  let ?r = "add_info (''Found '' @ str_nat n @ '' entries'') r"
  have "three_state (status ?r)" using ts by (simp add: add_info_def)
  then have "reports snd msgs (apl_entries_loop rt 0 es ([], ?r))"
    using loop [of ?r] eo by simp
  then have "reports (\<lambda>r. r) msgs (validate_apl_entries rt v ?r)"
    using es by (intro validate_apl_entries_reports)
  then have "reports (\<lambda>r. r) msgs (dict_entries rt items r)"
    using v n by (simp add: dict_entries_def)
  then have "reports (\<lambda>r. r) msgs (and_then (dict_entries rt items r) (dict_timestamp rt items))"
    by (rule and_then_reports [where res = "\<lambda>r. r", OF _ escalates_dict_timestamp])
  then have "reports (\<lambda>r. r) msgs
               (and_then (and_then (dict_entries rt items r) (dict_timestamp rt items))
                  (dict_user rt items))"
    by (rule and_then_reports [where res = "\<lambda>r. r", OF _ escalates_dict_user])
  then have "reports (\<lambda>r. r) msgs
               (and_then (and_then (and_then (dict_entries rt items r) (dict_timestamp rt items))
                            (dict_user rt items))
                  (dict_summary rt items))"
    by (rule and_then_reports [where res = "\<lambda>r. r", OF _ escalates_dict_summary])
  then show ?thesis using JObj by (simp add: validate_apl_data_def)
qed

lemma validate_apl_file_reports:
  assumes "reports (\<lambda>r. r) msgs
             (validate_apl_data rt data
                (add_check True (Some ''JSON structure valid'')
                   ((init_result (''APL File: '' @ fname))\<lparr>start_time := Some t0\<rparr>)))"
  shows "status (fst (validate_apl_file rt filepath fname (Json data) t0 t1 h)) = FAILED
         \<and> set msgs \<subseteq> set (errors (fst (validate_apl_file rt filepath fname (Json data) t0 t1 h)))"
proof -
  let ?r0 = "add_check True (Some ''JSON structure valid'')
               ((init_result (''APL File: '' @ fname))\<lparr>start_time := Some t0\<rparr>)"
  obtain x r1 where d: "validate_apl_data rt data ?r0 = (x, r1)"
    by (cases "validate_apl_data rt data ?r0") auto
  show ?thesis
  proof (cases x)
    case None
    then show ?thesis using assms d by (simp add: validate_apl_file_def Let_def reports_def)
  next
    case (Some e)
    then show ?thesis using assms d
      by (auto simp: validate_apl_file_def Let_def reports_def add_error_def)
  qed
qed

lemma three_state_loaded:
  "three_state (status (add_check True m ((init_result nm)\<lparr>start_time := t\<rparr>)))"
  by (simp add: three_state_def add_check_def init_result_def)

text \<open>
  C4 (as amended). Let entry \<open>j\<close> of a change list repeat the sequence number of an
  earlier entry (the two values are equal as Python compares them). Then
  \<open>validate_apl_file\<close> finishes FAILED. When moreover the entries up to \<open>j\<close> carry an
  \<open>asset_id\<close>, those before \<open>j\<close> are well typed and the \<open>status\<close> of entry \<open>j\<close> is a
  scalar, it records the error "Entry j: Duplicate sequence number q". Hence a change list
  whose validation does not finish FAILED has an \<open>asset_id\<close> in every entry and no
  sequence number twice. The validation of a change list makes no check on create
  operations.
\<close>

theorem apl_validation_duplicate_sequences:
  "(i < j \<and> j < length (entries_of data)
      \<and> entry_sequence (entries_of data ! i) = Some a
      \<and> entry_sequence (entries_of data ! j) = Some q \<and> py_eq a q
      \<and> (\<forall>k\<le>j. py_in ''asset_id'' (entries_of data ! k) = Inr True)
      \<and> (\<forall>k<j. well_typed_entry (entries_of data ! k))
      \<and> typed_key ''status'' hashable (entries_of data ! j)
     \<longrightarrow> status (fst (validate_apl_file rt filepath fname (Json data) t0 t1 h)) = FAILED
         \<and> duplicate_sequence_msg j q
             \<in> set (errors (fst (validate_apl_file rt filepath fname (Json data) t0 t1 h))))
   \<and> (i < j \<and> j < length (entries_of data)
      \<and> entry_sequence (entries_of data ! i) = Some a
      \<and> entry_sequence (entries_of data ! j) = Some q \<and> py_eq a q
     \<longrightarrow> status (fst (validate_apl_file rt filepath fname (Json data) t0 t1 h)) = FAILED)
   \<and> (status (fst (validate_apl_file rt filepath fname (Json data) t0 t1 h)) \<noteq> FAILED
     \<longrightarrow> (\<forall>e\<in>set (entries_of data). py_in ''asset_id'' e = Inr True)
         \<and> (\<forall>m n b c. m < n \<and> n < length (entries_of data)
                \<and> entry_sequence (entries_of data ! m) = Some b
                \<and> entry_sequence (entries_of data ! n) = Some c
              \<longrightarrow> \<not> py_eq b c))"
proof -
  let ?es = "entries_of data"
  let ?r0 = "add_check True (Some ''JSON structure valid'')
               ((init_result (''APL File: '' @ fname))\<lparr>start_time := Some t0\<rparr>)"
  let ?res = "fst (validate_apl_file rt filepath fname (Json data) t0 t1 h)"
  have ts: "three_state (status ?r0)" by (rule three_state_loaded)
  have fails: "status ?res = FAILED"
    if "m < n" "n < length ?es" "entry_sequence (?es ! m) = Some b"
      "entry_sequence (?es ! n) = Some c" "py_eq b c" for m n b c
  proof -
    have ne: "?es \<noteq> []" using that(2) by auto
    have "reports snd [] (apl_entries_loop rt 0 ?es ([], r'))" if "three_state (status r')" for r'
      using that \<open>m < n\<close> \<open>n < length ?es\<close> \<open>entry_sequence (?es ! m) = Some b\<close>
        \<open>entry_sequence (?es ! n) = Some c\<close> \<open>py_eq b c\<close>
      by (intro loop_duplicate_fails [where j = n and q = c]) auto
    then have "reports (\<lambda>r. r) [] (validate_apl_data rt data ?r0)"
      using ne ts by (intro validate_apl_data_reports)
    then show ?thesis using validate_apl_file_reports by blast
  qed
  have records: "status ?res = FAILED \<and> duplicate_sequence_msg j q \<in> set (errors ?res)"
    if "i < j" "j < length ?es" "entry_sequence (?es ! i) = Some a"
      "entry_sequence (?es ! j) = Some q" "py_eq a q"
      "\<forall>k\<le>j. py_in ''asset_id'' (?es ! k) = Inr True"
      "\<forall>k<j. well_typed_entry (?es ! k)" "typed_key ''status'' hashable (?es ! j)"
  proof -
    have ne: "?es \<noteq> []" using that(2) by auto
    have "reports snd [duplicate_sequence_msg (0 + j) q] (apl_entries_loop rt 0 ?es ([], r'))"
      if "three_state (status r')" for r'
      using that \<open>i < j\<close> \<open>j < length ?es\<close> \<open>entry_sequence (?es ! i) = Some a\<close>
        \<open>entry_sequence (?es ! j) = Some q\<close> \<open>py_eq a q\<close>
        \<open>\<forall>k\<le>j. py_in ''asset_id'' (?es ! k) = Inr True\<close>
        \<open>\<forall>k<j. well_typed_entry (?es ! k)\<close> \<open>typed_key ''status'' hashable (?es ! j)\<close>
      by (intro loop_reports_duplicate) auto
    then have "reports (\<lambda>r. r) [duplicate_sequence_msg j q] (validate_apl_data rt data ?r0)"
      using ne ts by (intro validate_apl_data_reports) simp_all
    then show ?thesis using validate_apl_file_reports [of "[duplicate_sequence_msg j q]"] by simp
  qed
  have ids: "\<forall>e\<in>set ?es. py_in ''asset_id'' e = Inr True" if nf: "status ?res \<noteq> FAILED"
  proof (rule ccontr)
    assume "\<not> (\<forall>e\<in>set ?es. py_in ''asset_id'' e = Inr True)"
    then have ex: "\<exists>e\<in>set ?es. py_in ''asset_id'' e \<noteq> Inr True" by simp
    then have ne: "?es \<noteq> []" by auto
    have "reports snd [] (apl_entries_loop rt 0 ?es ([], r'))" if "three_state (status r')" for r'
      using ex that by (intro loop_missing_id) simp_all
    then have "reports (\<lambda>r. r) [] (validate_apl_data rt data ?r0)"
      using ne ts by (intro validate_apl_data_reports)
    then show False using validate_apl_file_reports nf by blast
  qed
  show ?thesis using fails records ids by blast
qed

theorem apl_validation_duplicate_sequences_witness:
  "status (fst (validate_apl_file
      \<lparr>fromisoformat_accepts = (\<lambda>t. True), exception_text = (\<lambda>e. ''''), container_str = (\<lambda>v. '''')\<rparr>
      ''run.apl'' ''run.apl''
      (Json (JList
        [JObj [(''asset_id'', JScalar (PStr ''srv-001'')), (''status'', JScalar (PStr ''applied'')),
               (''sequence'', JScalar (PInt 1))],
         JObj [(''asset_id'', JScalar (PStr ''srv-002'')), (''status'', JScalar (PStr ''applied'')),
               (''sequence'', JScalar (PInt 1))]]))
      0 1 [])) = FAILED
   \<and> ''Entry 1: Duplicate sequence number 1''
       \<in> set (errors (fst (validate_apl_file
      \<lparr>fromisoformat_accepts = (\<lambda>t. True), exception_text = (\<lambda>e. ''''), container_str = (\<lambda>v. '''')\<rparr>
      ''run.apl'' ''run.apl''
      (Json (JList
        [JObj [(''asset_id'', JScalar (PStr ''srv-001'')), (''status'', JScalar (PStr ''applied'')),
               (''sequence'', JScalar (PInt 1))],
         JObj [(''asset_id'', JScalar (PStr ''srv-002'')), (''status'', JScalar (PStr ''applied'')),
               (''sequence'', JScalar (PInt 1))]]))
      0 1 [])))
   \<and> status (fst (validate_apl_file
      \<lparr>fromisoformat_accepts = (\<lambda>t. True), exception_text = (\<lambda>e. ''''), container_str = (\<lambda>v. '''')\<rparr>
      ''run.apl'' ''run.apl''
      (Json (JList
        [JObj [(''asset_id'', JScalar (PStr ''srv-001'')), (''status'', JScalar (PStr ''applied'')),
               (''sequence'', JScalar (PInt 1))],
         JObj [(''asset_id'', JScalar (PStr ''srv-002'')), (''status'', JScalar (PStr ''applied'')),
               (''sequence'', JScalar (PInt 2))]]))
      0 1 [])) \<noteq> FAILED
   \<and> \<not> py_eq (PInt 1) (PInt 2)"
proof -
  let ?rt = "\<lparr>fromisoformat_accepts = (\<lambda>t. True), exception_text = (\<lambda>e. ''''),
              container_str = (\<lambda>v. '''')\<rparr>"
  let ?a = "JObj [(''asset_id'', JScalar (PStr ''srv-001'')), (''status'', JScalar (PStr ''applied'')),
               (''sequence'', JScalar (PInt 1))]"
  let ?b = "JObj [(''asset_id'', JScalar (PStr ''srv-002'')), (''status'', JScalar (PStr ''applied'')),
               (''sequence'', JScalar (PInt 1))]"
  let ?c = "JObj [(''asset_id'', JScalar (PStr ''srv-002'')), (''status'', JScalar (PStr ''applied'')),
               (''sequence'', JScalar (PInt 2))]"
  have msg: "duplicate_sequence_msg 1 (PInt 1) = ''Entry 1: Duplicate sequence number 1''"
    by code_simp
  have hyp: "(0::nat) < 1 \<and> 1 < length (entries_of (JList [?a, ?b]))
      \<and> entry_sequence (entries_of (JList [?a, ?b]) ! 0) = Some (PInt 1)
      \<and> entry_sequence (entries_of (JList [?a, ?b]) ! 1) = Some (PInt 1)
      \<and> py_eq (PInt 1) (PInt 1)
      \<and> (\<forall>k\<le>1. py_in ''asset_id'' (entries_of (JList [?a, ?b]) ! k) = Inr True)
      \<and> (\<forall>k<1. well_typed_entry (entries_of (JList [?a, ?b]) ! k))
      \<and> typed_key ''status'' hashable (entries_of (JList [?a, ?b]) ! 1)"
    by (simp add: well_typed_entry_def le_Suc_eq)
  have pass: "status (fst (validate_apl_file ?rt ''run.apl'' ''run.apl''
      (Json (JList [?a, ?c])) 0 1 [])) \<noteq> FAILED"
    by code_simp
  have seqs: "(0::nat) < 1 \<and> 1 < length (entries_of (JList [?a, ?c]))
      \<and> entry_sequence (entries_of (JList [?a, ?c]) ! 0) = Some (PInt 1)
      \<and> entry_sequence (entries_of (JList [?a, ?c]) ! 1) = Some (PInt 2)"
    by simp
  have dup: "status (fst (validate_apl_file ?rt ''run.apl'' ''run.apl''
                (Json (JList [?a, ?b])) 0 1 [])) = FAILED
             \<and> duplicate_sequence_msg 1 (PInt 1)
                 \<in> set (errors (fst (validate_apl_file ?rt ''run.apl'' ''run.apl''
                      (Json (JList [?a, ?b])) 0 1 [])))"
    using apl_validation_duplicate_sequences
            [of 0 1 "JList [?a, ?b]" "PInt 1" "PInt 1" ?rt "''run.apl''" "''run.apl''" 0 1 "[]",
             THEN conjunct1, THEN mp, OF hyp] .
  have "\<forall>m n b c. m < n \<and> n < length (entries_of (JList [?a, ?c]))
                \<and> entry_sequence (entries_of (JList [?a, ?c]) ! m) = Some b
                \<and> entry_sequence (entries_of (JList [?a, ?c]) ! n) = Some c
              \<longrightarrow> \<not> py_eq b c"
    using apl_validation_duplicate_sequences
            [of 0 1 "JList [?a, ?c]" "PInt 1" "PInt 2" ?rt "''run.apl''" "''run.apl''" 0 1 "[]",
             THEN conjunct2, THEN conjunct2, THEN mp, OF pass]
    by (elim conjE)
  then have "\<not> py_eq (PInt 1) (PInt 2)" using seqs by blast
  then show ?thesis using dup pass unfolding msg by (intro conjI) simp_all
qed

text \<open>
  C4 as stated fails: a change list with two create operations for the asset
  \<open>srv-004\<close> (and distinct sequence numbers) passes validation with status PASSED.
\<close>

theorem apl_validation_allows_repeated_create:
  "status (fst (validate_apl_file
      \<lparr>fromisoformat_accepts = (\<lambda>t. True), exception_text = (\<lambda>e. ''''), container_str = (\<lambda>v. '''')\<rparr>
      ''run.apl'' ''run.apl''
      (Json (JList
        [JObj [(''asset_id'', JScalar (PStr ''srv-004'')), (''operation'', JScalar (PStr ''create'')),
               (''status'', JScalar (PStr ''applied'')), (''sequence'', JScalar (PInt 1)),
               (''command'', JScalar (PStr ''topdesk-cli create asset srv-004''))],
         JObj [(''asset_id'', JScalar (PStr ''srv-004'')), (''operation'', JScalar (PStr ''create'')),
               (''status'', JScalar (PStr ''applied'')), (''sequence'', JScalar (PInt 2)),
               (''command'', JScalar (PStr ''topdesk-cli create asset srv-004''))]]))
      0 1 [])) = PASSED
   \<and> create_count ''srv-004''
        [JObj [(''asset_id'', JScalar (PStr ''srv-004'')), (''operation'', JScalar (PStr ''create'')),
               (''status'', JScalar (PStr ''applied'')), (''sequence'', JScalar (PInt 1)),
               (''command'', JScalar (PStr ''topdesk-cli create asset srv-004''))],
         JObj [(''asset_id'', JScalar (PStr ''srv-004'')), (''operation'', JScalar (PStr ''create'')),
               (''status'', JScalar (PStr ''applied'')), (''sequence'', JScalar (PInt 2)),
               (''command'', JScalar (PStr ''topdesk-cli create asset srv-004''))]] = 2"
  by code_simp

text \<open>
  A value of the wrong type ends the loop before it reaches the repeating entry: with a
  null \<open>timestamp\<close> in the first entry, \<open>timestamp.replace\<close> raises AttributeError, the
  last handler of \<open>validate_apl_file\<close> records a critical error, and the repeated
  sequence number of the second entry is never reported. The result is FAILED all the
  same.
\<close>

lemma apl_null_timestamp_abandons_loop:
  "fst (validate_apl_file
      \<lparr>fromisoformat_accepts = (\<lambda>t. True), exception_text = (\<lambda>e. ''no attribute''),
       container_str = (\<lambda>v. '''')\<rparr>
      ''run.apl'' ''run.apl''
      (Json (JList
        [JObj [(''asset_id'', JScalar (PStr ''a'')), (''sequence'', JScalar (PInt 1)),
               (''timestamp'', JScalar PNone)],
         JObj [(''asset_id'', JScalar (PStr ''b'')), (''sequence'', JScalar (PInt 1))]]))
      0 1 [])
   = \<lparr>name = ''APL File: run.apl'', status = FAILED, checks_performed = 1, passed_checks = 1,
      warnings = [], errors = [], critical_errors = [''Validation error: no attribute''],
      info_messages = [''Found 2 items''], start_time = Some 0, end_time = Some 1, metadata = []\<rparr>"
  by code_simp

section \<open>sorter.py: natural sort keys\<close>

text \<open>
  \<open>str.lower()\<close> on the code points below 256: the letters A-Z and the capital letters
  U+00C0 .. U+00DE (without the multiplication sign U+00D7) move up by 32.
\<close>

definition py_lower_char :: "char \<Rightarrow> char" where
  "py_lower_char c =
     (let n = (of_char c :: nat)
      in if (65 \<le> n \<and> n \<le> 90) \<or> (192 \<le> n \<and> n \<le> 222 \<and> n \<noteq> 215)
         then char_of (n + 32) else c)"

definition py_lower :: "string \<Rightarrow> string" where
  "py_lower s = map py_lower_char s"

text \<open>
  The pattern class \<open>\d\<close> (and the digits \<open>int()\<close> accepts) are the decimal digits 0-9;
  \<open>str.isdigit\<close> also holds for the superscript digits U+00B2, U+00B3 and U+00B9.
\<close>

definition is_decimal :: "char \<Rightarrow> bool" where
  "is_decimal c = (let n = (of_char c :: nat) in 48 \<le> n \<and> n \<le> 57)"

definition isdigit_char :: "char \<Rightarrow> bool" where
  "isdigit_char c = (is_decimal c \<or> (of_char c :: nat) \<in> {178, 179, 185})"

definition py_isdigit :: "string \<Rightarrow> bool" where
  "py_isdigit s = (s \<noteq> [] \<and> list_all isdigit_char s)"

text \<open>The truth value of a scalar.\<close>

fun py_truthy :: "pyval \<Rightarrow> bool" where
  "py_truthy PNone = False"
| "py_truthy (PBool b) = b"
| "py_truthy (PInt i) = (i \<noteq> 0)"
| "py_truthy (PStr s) = (s \<noteq> [])"

text \<open>
  \<open>int(part)\<close> for a part on which \<open>isdigit()\<close> holds: the value of a run of decimal
  digits; a superscript digit is not a decimal digit and raises ValueError.
\<close>

definition digits_value :: "string \<Rightarrow> nat" where
  "digits_value s = foldl (\<lambda>acc c. 10 * acc + (of_char c - 48)) 0 s"

definition py_int :: "string \<Rightarrow> py_exception + int" where
  "py_int part = (if list_all is_decimal part then Inr (int (digits_value part)) else Inl ValueError)"

text \<open>
  \<open>re.split(r'(\d+)', text)\<close>: the text before the first digit run, then alternately a
  digit run and the text up to the next one; the pieces between runs may be empty.
\<close>

function re_split :: "string \<Rightarrow> string list" where
  "re_split s =
     (let a = takeWhile (\<lambda>c. \<not> is_decimal c) s;
          r = dropWhile (\<lambda>c. \<not> is_decimal c) s
      in if r = [] then [a]
         else a # takeWhile is_decimal r # re_split (dropWhile is_decimal r))"
  by pat_completeness auto
termination
proof (relation "measure length")
  show "wf (measure length)" by simp
next
  fix s :: string and a r
  assume r: "r = dropWhile (\<lambda>c. \<not> is_decimal c) s" and ne: "r \<noteq> []"
  have "is_decimal (hd r)"
    using hd_dropWhile [of "\<lambda>c. \<not> is_decimal c" s] r ne by simp
  then have "dropWhile is_decimal r = dropWhile is_decimal (tl r)"
    using ne by (cases r) simp_all
  then have "length (dropWhile is_decimal r) \<le> length (tl r)"
    using length_dropWhile_le [of is_decimal "tl r"] by (simp del: length_tl)
  also have "\<dots> < length r" using ne by (cases r) simp_all
  also have "\<dots> \<le> length s" using r by (simp add: length_dropWhile_le)
  finally show "(dropWhile is_decimal r, s) \<in> measure length" by simp
qed

declare re_split.simps [simp del]

text \<open>An element of a sort key: an integer, a string, or the float infinity.\<close>

datatype key_part = KInt int | KStr string | KInf

text \<open>The loop over the pieces: digit pieces become integers, empty pieces are dropped.\<close>

fun key_parts :: "string list \<Rightarrow> py_exception + key_part list" where
  "key_parts [] = Inr []"
| "key_parts (part # rest) =
     (if py_isdigit part
      then (case py_int part of
              Inl e \<Rightarrow> Inl e
            | Inr n \<Rightarrow> (case key_parts rest of Inl e \<Rightarrow> Inl e | Inr ks \<Rightarrow> Inr (KInt n # ks)))
      else if part \<noteq> []
      then (case key_parts rest of Inl e \<Rightarrow> Inl e | Inr ks \<Rightarrow> Inr (KStr part # ks))
      else key_parts rest)"

definition natural_sort_key :: "pyval \<Rightarrow> py_exception + key_part list" where
  "natural_sort_key text =
     (if text = PNone then Inr [KInf, KStr []]
      else (case key_parts (re_split (py_lower (py_strip (py_str text)))) of
              Inl e \<Rightarrow> Inl e
            | Inr parts \<Rightarrow> Inr (if parts \<noteq> [] then parts else [KStr []])))"

text \<open>
  Comparison of two keys as Python compares lists: the first pair of elements that are
  not equal decides, by \<open><\<close> on that pair; an integer and a string are never equal and
  their \<open><\<close> raises TypeError. Strings compare by code point.
\<close>

fun part_eq :: "key_part \<Rightarrow> key_part \<Rightarrow> bool" where
  "part_eq (KInt i) (KInt j) = (i = j)"
| "part_eq (KStr s) (KStr t) = (s = t)"
| "part_eq KInf KInf = True"
| "part_eq x y = False"

fun part_lt :: "key_part \<Rightarrow> key_part \<Rightarrow> py_exception + bool" where
  "part_lt (KInt i) (KInt j) = Inr (i < j)"
| "part_lt (KStr s) (KStr t) = Inr (s < t)"
| "part_lt (KInt i) KInf = Inr True"
| "part_lt KInf (KInt j) = Inr False"
| "part_lt KInf KInf = Inr False"
| "part_lt x y = Inl TypeError"

fun key_lt :: "key_part list \<Rightarrow> key_part list \<Rightarrow> py_exception + bool" where
  "key_lt [] [] = Inr False"
| "key_lt [] (y # ys) = Inr True"
| "key_lt (x # xs) [] = Inr False"
| "key_lt (x # xs) (y # ys) = (if part_eq x y then key_lt xs ys else part_lt x y)"

text \<open>\<open>a > b\<close> on lists is decided at the same pair, by \<open>>\<close>.\<close>

definition key_gt :: "key_part list \<Rightarrow> key_part list \<Rightarrow> py_exception + bool" where
  "key_gt a b = key_lt b a"

section \<open>sorter.py: sorting assets\<close>

text \<open>An asset is a dictionary from field names to scalars, in insertion order.\<close>

type_synonym asset = "(string \<times> pyval) list"

text \<open>\<open>asset_id_comparator\<close>; the identifier defaults to the empty string.\<close>

definition asset_id_comparator :: "asset \<Rightarrow> asset \<Rightarrow> py_exception + int" where
  "asset_id_comparator a b =
     (let a_id = dict_get a ''asset_id'' (PStr []);
          b_id = dict_get b ''asset_id'' (PStr [])
      in if \<not> py_truthy a_id \<and> \<not> py_truthy b_id then Inr 0
         else if \<not> py_truthy a_id then Inr 1
         else if \<not> py_truthy b_id then Inr (- 1)
         else (case natural_sort_key a_id of
                 Inl e \<Rightarrow> Inl e
               | Inr a_key \<Rightarrow>
                  (case natural_sort_key b_id of
                     Inl e \<Rightarrow> Inl e
                   | Inr b_key \<Rightarrow>
                      (case key_lt a_key b_key of
                         Inl e \<Rightarrow> Inl e
                       | Inr True \<Rightarrow> Inr (- 1)
                       | Inr False \<Rightarrow>
                          (case key_gt a_key b_key of
                             Inl e \<Rightarrow> Inl e
                           | Inr True \<Rightarrow> Inr 1
                           | Inr False \<Rightarrow> Inr 0)))))"

text \<open>\<open>cmp_to_key\<close>: the wrapped objects compare by \<open>mycmp(a, b) < 0\<close>.\<close>

definition cmp_lt ::
  "('a \<Rightarrow> 'a \<Rightarrow> py_exception + int) \<Rightarrow> 'a \<Rightarrow> 'a \<Rightarrow> py_exception + bool" where
  "cmp_lt mycmp a b = (case mycmp a b of Inl e \<Rightarrow> Inl e | Inr c \<Rightarrow> Inr (c < 0))"

text \<open>
  \<open>sorted\<close> with a comparison that may raise, as a stable insertion sort: each element
  in turn is placed before the first element of the sorted prefix that it is less than,
  and the first comparison that raises ends the sort with that exception. Python's own
  algorithm makes other comparisons; where it succeeds its result is the stable sorted
  arrangement, as here. With \<open>reverse=True\<close> the list is reversed before and after.
\<close>

fun insert_sorted ::
  "('a \<Rightarrow> 'a \<Rightarrow> py_exception + bool) \<Rightarrow> 'a \<Rightarrow> 'a list \<Rightarrow> py_exception + 'a list" where
  "insert_sorted lt x [] = Inr [x]"
| "insert_sorted lt x (y # ys) =
     (case lt x y of
        Inl e \<Rightarrow> Inl e
      | Inr True \<Rightarrow> Inr (x # y # ys)
      | Inr False \<Rightarrow> (case insert_sorted lt x ys of Inl e \<Rightarrow> Inl e | Inr zs \<Rightarrow> Inr (y # zs)))"

fun sort_into ::
  "('a \<Rightarrow> 'a \<Rightarrow> py_exception + bool) \<Rightarrow> 'a list \<Rightarrow> 'a list \<Rightarrow> py_exception + 'a list" where
  "sort_into lt acc [] = Inr acc"
| "sort_into lt acc (x # xs) =
     (case insert_sorted lt x acc of Inl e \<Rightarrow> Inl e | Inr acc' \<Rightarrow> sort_into lt acc' xs)"

definition py_sorted ::
  "('a \<Rightarrow> 'a \<Rightarrow> py_exception + bool) \<Rightarrow> bool \<Rightarrow> 'a list \<Rightarrow> py_exception + 'a list" where
  "py_sorted lt reverse xs =
     (if reverse
      then (case sort_into lt [] (rev xs) of Inl e \<Rightarrow> Inl e | Inr ys \<Rightarrow> Inr (rev ys))
      else sort_into lt [] xs)"

text \<open>\<open>FIELD_PRIORITY\<close> and \<open>sort_asset_fields\<close>: the fields in the order of
  \<open>(priority, field.lower())\<close>, by a stable sort.\<close>

definition FIELD_PRIORITY :: "(string \<times> nat) list" where
  "FIELD_PRIORITY =
     [(''asset_id'', 1), (''ip_address'', 2), (''hostname'', 3), (''serial_number'', 4),
      (''model'', 5), (''manufacturer'', 6), (''location'', 7), (''department'', 8),
      (''status'', 9), (''last_updated'', 90), (''created_date'', 91), (''notes'', 99)]"

definition field_sort_key :: "string \<Rightarrow> nat \<times> string" where
  "field_sort_key field = (dict_get FIELD_PRIORITY (py_lower field) 50, py_lower field)"

definition sort_asset_fields :: "asset \<Rightarrow> asset" where
  "sort_asset_fields asset = sort_key (\<lambda>kv. field_sort_key (fst kv)) asset"

text \<open>
  \<open>sort_assets\<close> returns a pair: the list it returns, and the caller's list as the call
  leaves it (the dictionaries of a sorted list are the caller's own, and their fields are
  reordered in place). When the sort raises, the exception is caught and logged and the
  caller's list is returned.
\<close>

definition sort_assets :: "asset list \<Rightarrow> bool \<Rightarrow> asset list \<times> asset list" where
  "sort_assets assets reverse =
     (case py_sorted (cmp_lt asset_id_comparator) reverse assets of
        Inl e \<Rightarrow> (assets, assets)
      | Inr sorted_assets \<Rightarrow> (map sort_asset_fields sorted_assets, map sort_asset_fields assets))"

text \<open>
  \<open>validate_sort_order\<close> with the default \<open>key_field\<close>: the check of one adjacent pair,
  and the walk over the pairs.
\<close>

definition check_pair :: "asset \<Rightarrow> asset \<Rightarrow> py_exception + bool" where
  "check_pair prev_a curr_a =
     (let prev_val = dict_get prev_a ''asset_id'' PNone;
          curr_val = dict_get curr_a ''asset_id'' PNone
      in if prev_val = PNone \<and> curr_val \<noteq> PNone then Inr False
         else if prev_val = PNone \<or> curr_val = PNone then Inr True
         else (case natural_sort_key (PStr (py_str prev_val)) of
                 Inl e \<Rightarrow> Inl e
               | Inr prev_key \<Rightarrow>
                  (case natural_sort_key (PStr (py_str curr_val)) of
                     Inl e \<Rightarrow> Inl e
                   | Inr curr_key \<Rightarrow>
                      (case key_gt prev_key curr_key of
                         Inl e \<Rightarrow> Inl e
                       | Inr b \<Rightarrow> Inr (\<not> b)))))"

fun validate_sort_order :: "asset list \<Rightarrow> py_exception + bool" where
  "validate_sort_order (prev_a # curr_a # rest) =
     (case check_pair prev_a curr_a of
        Inl e \<Rightarrow> Inl e
      | Inr False \<Rightarrow> Inr False
      | Inr True \<Rightarrow> validate_sort_order (curr_a # rest))"
| "validate_sort_order items = Inr True"


text \<open>
  The identifier of an asset, as \<open>validate_sort_order\<close> reads it, is None (or absent) or
  truthy: present and neither the empty string, nor 0, nor False.
\<close>

definition id_none_or_truthy :: "asset \<Rightarrow> bool" where
  "id_none_or_truthy a =
     (dict_get a ''asset_id'' PNone = PNone \<or> py_truthy (dict_get a ''asset_id'' PNone))"


subsection \<open>Keys and the comparator\<close>

lemma part_eq_sym: "part_eq x y = part_eq y x"
  by (cases x; cases y) auto

lemma part_lt_asym: "part_lt x y = Inr True \<Longrightarrow> part_lt y x = Inr False"
  by (cases x; cases y) auto

lemma key_lt_asym: "key_lt a b = Inr True \<Longrightarrow> key_lt b a = Inr False"
proof (induction a b rule: key_lt.induct)
  case (4 x xs y ys)
  show ?case
  proof (cases "part_eq x y")
    case True
    then show ?thesis using 4 by (simp add: part_eq_sym [of y x])
  next
    case False
    then show ?thesis using 4 by (simp add: part_eq_sym [of y x] part_lt_asym)
  qed
qed simp_all

lemma natural_sort_key_str: "v \<noteq> PNone \<Longrightarrow> natural_sort_key (PStr (py_str v)) = natural_sort_key v"
  by (simp add: natural_sort_key_def)

text \<open>The comparator on a pair in which an identifier is missing (None, absent or empty).\<close>

lemma comparator_missing:
  assumes "\<not> py_truthy (dict_get a ''asset_id'' (PStr []))"
  shows "asset_id_comparator a b =
           (if py_truthy (dict_get b ''asset_id'' (PStr [])) then Inr 1 else Inr 0)"
    and "asset_id_comparator b a =
           (if py_truthy (dict_get b ''asset_id'' (PStr [])) then Inr (- 1) else Inr 0)"
  using assms by (simp_all add: asset_id_comparator_def Let_def)

text \<open>The comparator on two identifiers that are present: what a result says about the keys.\<close>

lemma comparator_present:
  assumes "py_truthy (dict_get a ''asset_id'' (PStr []))"
    and "py_truthy (dict_get b ''asset_id'' (PStr []))"
    and "asset_id_comparator a b = Inr c"
  shows "\<exists>ka kb. natural_sort_key (dict_get a ''asset_id'' (PStr [])) = Inr ka
           \<and> natural_sort_key (dict_get b ''asset_id'' (PStr [])) = Inr kb
           \<and> key_lt ka kb = Inr (c < 0)"
  using assms
  by (auto simp: asset_id_comparator_def Let_def split: sum.splits bool.splits)

subsection \<open>The insertion sort\<close>

text \<open>
  Two neighbours are in order when a comparison the sort made says so: the right one is
  not less than the left one, or the left one is less than the right one.
\<close>

definition in_order :: "('a \<Rightarrow> 'a \<Rightarrow> py_exception + bool) \<Rightarrow> 'a \<Rightarrow> 'a \<Rightarrow> bool" where
  "in_order lt u v = (lt v u = Inr False \<or> lt u v = Inr True)"

lemma insert_sorted_Cons:
  assumes "insert_sorted lt x (y # ys) = Inr zs"
  shows "(lt x y = Inr True \<and> zs = x # y # ys)
         \<or> (lt x y = Inr False \<and> (\<exists>ws. insert_sorted lt x ys = Inr ws \<and> zs = y # ws))"
proof (cases "lt x y")
  case (Inl e)
  then show ?thesis using assms by simp
next
  case (Inr b)
  show ?thesis
  proof (cases b)
    case True
    then show ?thesis using assms Inr by simp
  next
    case False
    then show ?thesis using assms Inr by (cases "insert_sorted lt x ys") simp_all
  qed
qed

lemma insert_sorted_mset: "insert_sorted lt x ys = Inr zs \<Longrightarrow> mset zs = add_mset x (mset ys)"
proof (induction ys arbitrary: zs)
  case Nil
  then show ?case by auto
next
  case (Cons y ys)
  from insert_sorted_Cons [OF Cons.prems] show ?case
  proof
    assume "lt x y = Inr True \<and> zs = x # y # ys"
    then show ?thesis by simp
  next
    assume "lt x y = Inr False \<and> (\<exists>ws. insert_sorted lt x ys = Inr ws \<and> zs = y # ws)"
    then obtain ws where "insert_sorted lt x ys = Inr ws" "zs = y # ws" by blast
    then show ?thesis using Cons.IH [of ws] by simp
  qed
qed

lemma insert_sorted_hd:
  assumes "insert_sorted lt x ys = Inr zs"
  shows "zs \<noteq> [] \<and> ((hd zs = x \<and> (ys = [] \<or> lt x (hd ys) = Inr True))
               \<or> (ys \<noteq> [] \<and> hd zs = hd ys \<and> lt x (hd ys) = Inr False))"
proof (cases ys)
  case Nil
  then show ?thesis using assms by auto
next
  case (Cons y ys')
  then show ?thesis using insert_sorted_Cons [of lt x y ys' zs] assms by auto
qed

lemma insert_sorted_in_order:
  "successively (in_order lt) ys \<Longrightarrow> insert_sorted lt x ys = Inr zs \<Longrightarrow> successively (in_order lt) zs"
proof (induction ys arbitrary: zs)
  case Nil
  then show ?case by auto
next
  case (Cons y ys)
  show ?case
  proof (cases "lt x y")
    case (Inl e)
    then show ?thesis using Cons.prems by simp
  next
    case (Inr b)
    show ?thesis
    proof (cases b)
      case True
      then have "zs = x # y # ys" using Inr Cons.prems by simp
      then show ?thesis using Cons.prems(1) Inr True by (simp add: in_order_def)
    next
      case False
      then obtain ws where ws: "insert_sorted lt x ys = Inr ws" and zs: "zs = y # ws"
        using Inr insert_sorted_Cons [OF Cons.prems(2)] by auto
      have tl: "successively (in_order lt) ys" using Cons.prems(1) by (auto simp: successively_Cons)
      have sw: "successively (in_order lt) ws" using Cons.IH [OF tl ws] .
      have "in_order lt y (hd ws)"
      proof -
        from insert_sorted_hd [OF ws] consider "hd ws = x" | "ys \<noteq> []" "hd ws = hd ys" by blast
        then show ?thesis
        proof cases
          case 1
          then show ?thesis using Inr False by (simp add: in_order_def)
        next
          case 2
          then show ?thesis using Cons.prems(1) by (simp add: successively_Cons)
        qed
      qed
      then show ?thesis using sw zs by (simp add: successively_Cons)
    qed
  qed
qed

lemma sort_into_in_order:
  "successively (in_order lt) acc \<Longrightarrow> sort_into lt acc xs = Inr zs \<Longrightarrow> successively (in_order lt) zs"
proof (induction xs arbitrary: acc)
  case Nil
  then show ?case by simp
next
  case (Cons x xs)
  then obtain acc' where a: "insert_sorted lt x acc = Inr acc'" and s: "sort_into lt acc' xs = Inr zs"
    by (cases "insert_sorted lt x acc") simp_all
  show ?case using Cons.IH [OF insert_sorted_in_order [OF Cons.prems(1) a] s] .
qed

lemma sort_into_mset: "sort_into lt acc xs = Inr zs \<Longrightarrow> mset zs = mset acc + mset xs"
proof (induction xs arbitrary: acc)
  case Nil
  then show ?case by simp
next
  case (Cons x xs)
  then obtain acc' where a: "insert_sorted lt x acc = Inr acc'" and s: "sort_into lt acc' xs = Inr zs"
    by (cases "insert_sorted lt x acc") simp_all
  show ?case using Cons.IH [OF s] insert_sorted_mset [OF a] by simp
qed

lemma py_sorted_ascending:
  assumes "py_sorted lt False xs = Inr zs"
  shows "successively (in_order lt) zs" and "mset zs = mset xs"
  using assms sort_into_in_order [of lt "[]" xs zs] sort_into_mset [of lt "[]" xs zs]
  by (simp_all add: py_sorted_def)

subsection \<open>Field order does not change a lookup\<close>

lemma map_of_insort_key_fst:
  "map_of (insort_key (\<lambda>kv. f (fst kv)) x ys) = map_of (x # ys)"
proof (induction ys)
  case Nil
  show ?case by simp
next
  case (Cons y ys)
  show ?case
  proof (cases "f (fst x) \<le> f (fst y)")
    case True
    then show ?thesis by simp
  next
    case False
    then have ne: "fst x \<noteq> fst y" by auto
    have "map_of (insort_key (\<lambda>kv. f (fst kv)) x (y # ys)) = map_of (y # x # ys)"
      using False Cons.IH by (cases y) (simp add: fun_eq_iff)
    also have "\<dots> = map_of (x # y # ys)"
      using ne by (cases x; cases y) (auto simp: fun_eq_iff)
    finally show ?thesis .
  qed
qed

lemma map_of_sort_key_fst: "map_of (sort_key (\<lambda>kv. f (fst kv)) xs) = map_of xs"
proof (induction xs)
  case Nil
  show ?case by simp
next
  case (Cons x xs)
  have "map_of (sort_key (\<lambda>kv. f (fst kv)) (x # xs))
          = map_of (x # sort_key (\<lambda>kv. f (fst kv)) xs)"
    by (simp add: map_of_insort_key_fst)
  also have "\<dots> = map_of (x # xs)" using Cons.IH by (cases x) simp
  finally show ?case .
qed

lemma dict_get_sort_asset_fields: "dict_get (sort_asset_fields a) k d = dict_get a k d"
  by (simp add: dict_get_def sort_asset_fields_def map_of_sort_key_fst)

subsection \<open>The walk of \<open>validate_sort_order\<close>\<close>

lemma validate_sort_order_True_iff:
  "validate_sort_order items = Inr True \<longleftrightarrow> successively (\<lambda>a b. check_pair a b = Inr True) items"
proof (induction items rule: validate_sort_order.induct)
  case (1 prev_a curr_a rest)
  then show ?case by (auto split: sum.splits bool.splits)
qed simp_all

lemma validate_sort_order_first_violation:
  assumes "i + 1 < length items"
    and "\<forall>k<i. check_pair (items ! k) (items ! (k + 1)) = Inr True"
    and "check_pair (items ! i) (items ! (i + 1)) = Inr False"
  shows "validate_sort_order items = Inr False"
  using assms
proof (induction items arbitrary: i rule: validate_sort_order.induct)
  case (1 prev_a curr_a rest)
  show ?case
  proof (cases i)
    case 0
    then show ?thesis using "1.prems" by simp
  next
    case (Suc j)
    have first: "check_pair prev_a curr_a = Inr True" using "1.prems"(2) Suc by force
    have "validate_sort_order (curr_a # rest) = Inr False"
    proof (rule "1.IH" [OF first, of j])
      show "True = True" by simp
      show "j + 1 < length (curr_a # rest)" using "1.prems"(1) Suc by simp
      show "\<forall>k<j. check_pair ((curr_a # rest) ! k) ((curr_a # rest) ! (k + 1)) = Inr True"
        using "1.prems"(2) Suc by force
      show "check_pair ((curr_a # rest) ! j) ((curr_a # rest) ! (j + 1)) = Inr False"
        using "1.prems"(3) Suc by simp
    qed
    then show ?thesis using first by simp
  qed
qed simp_all

lemma id_views:
  assumes "id_none_or_truthy a"
  shows "py_truthy (dict_get a ''asset_id'' (PStr [])) = (dict_get a ''asset_id'' PNone \<noteq> PNone)"
    and "dict_get a ''asset_id'' PNone \<noteq> PNone \<Longrightarrow>
           dict_get a ''asset_id'' (PStr []) = dict_get a ''asset_id'' PNone"
  using assms by (auto simp: dict_get_def id_none_or_truthy_def split: option.splits)

lemma cmp_lt_Inr: "cmp_lt f a b = Inr r \<longleftrightarrow> (\<exists>c. f a b = Inr c \<and> r = (c < 0))"
  by (cases "f a b") (auto simp: cmp_lt_def)

lemma in_order_check_pair:
  assumes u: "id_none_or_truthy u" and v: "id_none_or_truthy v"
    and ord: "in_order (cmp_lt asset_id_comparator) u v"
  shows "check_pair u v = Inr True"
proof (cases "dict_get u ''asset_id'' PNone = PNone")
  case uNone: True
  show ?thesis
  proof (cases "dict_get v ''asset_id'' PNone = PNone")
    case True
    then show ?thesis using uNone by (simp add: check_pair_def)
  next
    case False
    have mu: "\<not> py_truthy (dict_get u ''asset_id'' (PStr []))" using id_views(1) [OF u] uNone by simp
    have tv: "py_truthy (dict_get v ''asset_id'' (PStr []))" using id_views(1) [OF v] False by simp
    have "asset_id_comparator u v = Inr 1" "asset_id_comparator v u = Inr (- 1)"
      using comparator_missing [OF mu, of v] tv by simp_all
    then have "cmp_lt asset_id_comparator u v = Inr False" "cmp_lt asset_id_comparator v u = Inr True"
      by (simp_all add: cmp_lt_def)
    then show ?thesis using ord by (simp add: in_order_def)
  qed
next
  case uSome: False
  show ?thesis
  proof (cases "dict_get v ''asset_id'' PNone = PNone")
    case True
    then show ?thesis using uSome by (simp add: check_pair_def)
  next
    case vSome: False
    let ?au = "dict_get u ''asset_id'' (PStr [])" and ?av = "dict_get v ''asset_id'' (PStr [])"
    have tu: "py_truthy ?au" using id_views(1) [OF u] uSome by simp
    have tv: "py_truthy ?av" using id_views(1) [OF v] vSome by simp
    have eu: "dict_get u ''asset_id'' PNone = ?au" using id_views(2) [OF u uSome] by simp
    have ev: "dict_get v ''asset_id'' PNone = ?av" using id_views(2) [OF v vSome] by simp
    have "\<exists>ku kv. natural_sort_key ?au = Inr ku \<and> natural_sort_key ?av = Inr kv
            \<and> key_lt kv ku = Inr False"
      using ord unfolding in_order_def
    proof
      assume "cmp_lt asset_id_comparator v u = Inr False"
      then obtain c where c: "asset_id_comparator v u = Inr c" "\<not> c < 0"
        by (auto simp: cmp_lt_Inr)
      from comparator_present [OF tv tu c(1)] c(2) show ?thesis by auto
    next
      assume "cmp_lt asset_id_comparator u v = Inr True"
      then obtain c where c: "asset_id_comparator u v = Inr c" "c < 0"
        by (auto simp: cmp_lt_Inr)
      from comparator_present [OF tu tv c(1)] c(2)
      obtain ku kv where "natural_sort_key ?au = Inr ku" "natural_sort_key ?av = Inr kv"
        "key_lt ku kv = Inr True" by auto
      then show ?thesis using key_lt_asym by blast
    qed
    then obtain ku kv where k: "natural_sort_key ?au = Inr ku" "natural_sort_key ?av = Inr kv"
      "key_lt kv ku = Inr False" by blast
    have "natural_sort_key (PStr (py_str ?au)) = Inr ku" "natural_sort_key (PStr (py_str ?av)) = Inr kv"
      using k uSome vSome eu ev by (simp_all add: natural_sort_key_str)
    then show ?thesis using uSome vSome eu ev k(3)
      by (simp add: check_pair_def key_gt_def)
  qed
qed

lemma check_pair_sort_asset_fields:
  "check_pair (sort_asset_fields a) (sort_asset_fields b) = check_pair a b"
  by (simp add: check_pair_def dict_get_sort_asset_fields)

lemma validate_accepts_sorted:
  assumes sorted: "py_sorted (cmp_lt asset_id_comparator) False assets = Inr s"
    and ids: "\<forall>a\<in>set assets. id_none_or_truthy a"
  shows "validate_sort_order (fst (sort_assets assets False)) = Inr True"
proof -
  have ord: "successively (in_order (cmp_lt asset_id_comparator)) s"
    and "mset s = mset assets"
    using py_sorted_ascending [OF sorted] by simp_all
  then have "set s = set assets" by (metis set_mset_mset)
  then have "successively (\<lambda>a b. check_pair a b = Inr True) s"
    using ord ids by (intro successively_mono [OF ord]) (simp add: in_order_check_pair)
  then have "successively (\<lambda>a b. check_pair a b = Inr True) (map sort_asset_fields s)"
    by (simp add: successively_map check_pair_sort_asset_fields)
  then show ?thesis using sorted
    by (simp add: sort_assets_def validate_sort_order_True_iff)
qed

lemma digit_char_decimal: "d < 10 \<Longrightarrow> is_decimal (digit_char d)"
  by (simp add: digit_char_def is_decimal_def)

lemma str_nat_decimal: "\<forall>c\<in>set (str_nat n). is_decimal c"
proof (induction n rule: str_nat.induct)
  case (1 n)
  show ?case
  proof (cases "n < 10")
    case True
    then show ?thesis by (subst str_nat.simps) (simp add: digit_char_decimal)
  next
    case False
    then show ?thesis using 1 by (subst str_nat.simps) (simp add: digit_char_decimal)
  qed
qed

subsection \<open>The key of a text followed by a number\<close>

lemma of_char_lower_shift:
  assumes "(of_char c :: nat) \<le> 222"
  shows "(of_char (char_of (of_char c + 32 :: nat)) :: nat) = of_char c + 32"
  using assms by (simp add: of_char_of)
















text \<open>
  C8. When the sort raises, \<open>sort_assets\<close> returns the list it was given and leaves it
  as it was; no exception leaves the function. When the sort succeeds, the result is the
  complete stable arrangement of the same assets, each with its fields reordered.
\<close>

theorem sort_assets_failure_returns_input:
  "(\<forall>e. py_sorted (cmp_lt asset_id_comparator) reverse assets = Inl e
        \<longrightarrow> sort_assets assets reverse = (assets, assets))
   \<and> (\<forall>s. py_sorted (cmp_lt asset_id_comparator) reverse assets = Inr s
        \<longrightarrow> mset s = mset assets
            \<and> sort_assets assets reverse = (map sort_asset_fields s, map sort_asset_fields assets))"
proof (intro conjI allI impI)
  fix e assume "py_sorted (cmp_lt asset_id_comparator) reverse assets = Inl e"
  then show "sort_assets assets reverse = (assets, assets)" by (simp add: sort_assets_def)
next
  fix s assume s: "py_sorted (cmp_lt asset_id_comparator) reverse assets = Inr s"
  show "mset s = mset assets"
  proof (cases reverse)
    case True
    then obtain ys where "sort_into (cmp_lt asset_id_comparator) [] (rev assets) = Inr ys" "s = rev ys"
      using s by (auto simp: py_sorted_def split: sum.splits)
    then show ?thesis using sort_into_mset [of _ "[]" "rev assets" ys] by simp
  next
    case False
    then show ?thesis using py_sorted_ascending(2) [of _ assets s] s by simp
  qed
  show "sort_assets assets reverse = (map sort_asset_fields s, map sort_asset_fields assets)"
    using s by (simp add: sort_assets_def)
qed

theorem sort_assets_failure_returns_input_witness:
  "py_sorted (cmp_lt asset_id_comparator) False
     [[(''asset_id'', PStr ''b'')], [(''asset_id'', PStr ''a'')], [(''asset_id'', PStr ''1'')]]
     = Inl TypeError
   \<and> sort_assets [[(''asset_id'', PStr ''b'')], [(''asset_id'', PStr ''a'')], [(''asset_id'', PStr ''1'')]] False
     = ([[(''asset_id'', PStr ''b'')], [(''asset_id'', PStr ''a'')], [(''asset_id'', PStr ''1'')]],
        [[(''asset_id'', PStr ''b'')], [(''asset_id'', PStr ''a'')], [(''asset_id'', PStr ''1'')]])
   \<and> py_sorted (cmp_lt asset_id_comparator) False
       [[(''name'', PStr ''Two''), (''asset_id'', PStr ''asset2'')], [(''asset_id'', PStr ''asset1'')]]
     = Inr [[(''asset_id'', PStr ''asset1'')], [(''name'', PStr ''Two''), (''asset_id'', PStr ''asset2'')]]
   \<and> sort_assets [[(''name'', PStr ''Two''), (''asset_id'', PStr ''asset2'')], [(''asset_id'', PStr ''asset1'')]] False
     = ([[(''asset_id'', PStr ''asset1'')], [(''asset_id'', PStr ''asset2''), (''name'', PStr ''Two'')]],
        [[(''asset_id'', PStr ''asset2''), (''name'', PStr ''Two'')], [(''asset_id'', PStr ''asset1'')]])"
proof -
  have f: "py_sorted (cmp_lt asset_id_comparator) False
     [[(''asset_id'', PStr ''b'')], [(''asset_id'', PStr ''a'')], [(''asset_id'', PStr ''1'')]]
     = Inl TypeError"
    by code_simp
  have g: "py_sorted (cmp_lt asset_id_comparator) False
       [[(''name'', PStr ''Two''), (''asset_id'', PStr ''asset2'')], [(''asset_id'', PStr ''asset1'')]]
     = Inr [[(''asset_id'', PStr ''asset1'')], [(''name'', PStr ''Two''), (''asset_id'', PStr ''asset2'')]]"
    by code_simp
  have h: "map sort_asset_fields [[(''asset_id'', PStr ''asset1'')], [(''name'', PStr ''Two''), (''asset_id'', PStr ''asset2'')]]
      = [[(''asset_id'', PStr ''asset1'')], [(''asset_id'', PStr ''asset2''), (''name'', PStr ''Two'')]]"
    "map sort_asset_fields [[(''name'', PStr ''Two''), (''asset_id'', PStr ''asset2'')], [(''asset_id'', PStr ''asset1'')]]
      = [[(''asset_id'', PStr ''asset2''), (''name'', PStr ''Two'')], [(''asset_id'', PStr ''asset1'')]]"
    by code_simp+
  show ?thesis
    using sort_assets_failure_returns_input
            [of False "[[(''asset_id'', PStr ''b'')], [(''asset_id'', PStr ''a'')], [(''asset_id'', PStr ''1'')]]"]
          sort_assets_failure_returns_input
            [of False "[[(''name'', PStr ''Two''), (''asset_id'', PStr ''asset2'')], [(''asset_id'', PStr ''asset1'')]]"]
          f g h
    by simp
qed

text \<open>
  On identifiers that are None, absent or truthy the check of a pair agrees with the
  comparator: it fails exactly when the comparator puts the first asset after the second.
\<close>

lemma comparator_present_gt:
  assumes "py_truthy (dict_get a ''asset_id'' (PStr []))"
    and "py_truthy (dict_get b ''asset_id'' (PStr []))"
    and "asset_id_comparator a b = Inr c"
  shows "\<exists>ka kb. natural_sort_key (dict_get a ''asset_id'' (PStr [])) = Inr ka
           \<and> natural_sort_key (dict_get b ''asset_id'' (PStr [])) = Inr kb
           \<and> key_gt ka kb = Inr (c = 1)"
proof -
  obtain ka kb where k: "natural_sort_key (dict_get a ''asset_id'' (PStr [])) = Inr ka"
    "natural_sort_key (dict_get b ''asset_id'' (PStr [])) = Inr kb" "key_lt ka kb = Inr (c < 0)"
    using comparator_present [OF assms] by blast
  show ?thesis
  proof (cases "c < 0")
    case True
    then have "key_lt kb ka = Inr False" using k(3) key_lt_asym by simp
    then show ?thesis using k True by (auto simp: key_gt_def)
  next
    case False
    then have "key_gt ka kb = Inr (c = 1)"
      using assms k
      by (auto simp: asset_id_comparator_def Let_def split: sum.splits bool.splits)
    then show ?thesis using k by blast
  qed
qed

lemma check_pair_comparator:
  assumes u: "id_none_or_truthy u" and v: "id_none_or_truthy v"
    and c: "asset_id_comparator u v = Inr c"
  shows "check_pair u v = Inr (c \<noteq> 1)"
proof (cases "dict_get u ''asset_id'' PNone = PNone")
  case uNone: True
  have mu: "\<not> py_truthy (dict_get u ''asset_id'' (PStr []))" using id_views(1) [OF u] uNone by simp
  show ?thesis
  proof (cases "dict_get v ''asset_id'' PNone = PNone")
    case True
    then have "\<not> py_truthy (dict_get v ''asset_id'' (PStr []))" using id_views(1) [OF v] by simp
    then have "c = 0" using comparator_missing(1) [OF mu, of v] c by simp
    then show ?thesis using uNone True by (simp add: check_pair_def)
  next
    case False
    then have "py_truthy (dict_get v ''asset_id'' (PStr []))" using id_views(1) [OF v] by simp
    then have "c = 1" using comparator_missing(1) [OF mu, of v] c by simp
    then show ?thesis using uNone False by (simp add: check_pair_def)
  qed
next
  case uSome: False
  have tu: "py_truthy (dict_get u ''asset_id'' (PStr []))" using id_views(1) [OF u] uSome by simp
  show ?thesis
  proof (cases "dict_get v ''asset_id'' PNone = PNone")
    case True
    then have mv: "\<not> py_truthy (dict_get v ''asset_id'' (PStr []))" using id_views(1) [OF v] by simp
    then have "c = - 1" using comparator_missing(2) [OF mv, of u] tu c by simp
    then show ?thesis using uSome True by (simp add: check_pair_def)
  next
    case vSome: False
    let ?au = "dict_get u ''asset_id'' (PStr [])" and ?av = "dict_get v ''asset_id'' (PStr [])"
    have tv: "py_truthy ?av" using id_views(1) [OF v] vSome by simp
    have eu: "dict_get u ''asset_id'' PNone = ?au" using id_views(2) [OF u uSome] by simp
    have ev: "dict_get v ''asset_id'' PNone = ?av" using id_views(2) [OF v vSome] by simp
    obtain ku kv where k: "natural_sort_key ?au = Inr ku" "natural_sort_key ?av = Inr kv"
      "key_gt ku kv = Inr (c = 1)"
      using comparator_present_gt [OF tu tv c] by blast
    have "natural_sort_key (PStr (py_str ?au)) = Inr ku" "natural_sort_key (PStr (py_str ?av)) = Inr kv"
      using k uSome vSome eu ev by (simp_all add: natural_sort_key_str)
    then show ?thesis using uSome vSome eu ev k(3) by (simp add: check_pair_def)
  qed
qed

text \<open>
  C9 (as amended). When the ascending sort of \<open>sort_assets\<close> succeeds and every
  identifier is None, absent or truthy, \<open>validate_sort_order\<close> returns true on the list
  \<open>sort_assets\<close> returns. On a list of such identifiers, when the pair at position \<open>i\<close>
  is the first that is out of order by \<open>asset_id_comparator\<close> (the comparator returns 1
  on it, and \<open>-1\<close> or 0 on every pair before it), \<open>validate_sort_order\<close> returns false;
  it does so on the list asset10, asset2, asset1.
\<close>

theorem validate_sort_order_on_sorted:
  "(py_sorted (cmp_lt asset_id_comparator) False assets = Inr s
      \<and> (\<forall>a\<in>set assets. id_none_or_truthy a)
     \<longrightarrow> validate_sort_order (fst (sort_assets assets False)) = Inr True)
   \<and> (i + 1 < length items \<and> (\<forall>a\<in>set items. id_none_or_truthy a)
      \<and> (\<forall>k<i. \<exists>c. asset_id_comparator (items ! k) (items ! (k + 1)) = Inr c \<and> c \<le> 0)
      \<and> asset_id_comparator (items ! i) (items ! (i + 1)) = Inr 1
     \<longrightarrow> validate_sort_order items = Inr False)
   \<and> validate_sort_order
        [[(''asset_id'', PStr ''asset10'')], [(''asset_id'', PStr ''asset2'')],
         [(''asset_id'', PStr ''asset1'')]] = Inr False"
proof (intro conjI impI)
  assume "py_sorted (cmp_lt asset_id_comparator) False assets = Inr s
      \<and> (\<forall>a\<in>set assets. id_none_or_truthy a)"
  then show "validate_sort_order (fst (sort_assets assets False)) = Inr True"
    using validate_accepts_sorted by blast
next
  assume h: "i + 1 < length items \<and> (\<forall>a\<in>set items. id_none_or_truthy a)
      \<and> (\<forall>k<i. \<exists>c. asset_id_comparator (items ! k) (items ! (k + 1)) = Inr c \<and> c \<le> 0)
      \<and> asset_id_comparator (items ! i) (items ! (i + 1)) = Inr 1"
  have ids: "id_none_or_truthy (items ! k)" if "k < length items" for k
    using h that by simp
  have before: "\<forall>k<i. check_pair (items ! k) (items ! (k + 1)) = Inr True"
  proof (intro allI impI)
    fix k assume k: "k < i"
    then obtain c where c: "asset_id_comparator (items ! k) (items ! (k + 1)) = Inr c" "c \<le> 0"
      using h by blast
    have "check_pair (items ! k) (items ! (k + 1)) = Inr (c \<noteq> 1)"
      using k h by (intro check_pair_comparator ids c(1)) simp_all
    then show "check_pair (items ! k) (items ! (k + 1)) = Inr True" using c(2) by simp
  qed
  have "check_pair (items ! i) (items ! (i + 1)) = Inr ((1::int) \<noteq> 1)"
    using h by (intro check_pair_comparator ids) simp_all
  then have at: "check_pair (items ! i) (items ! (i + 1)) = Inr False" by simp
  show "validate_sort_order items = Inr False"
    using h before at by (intro validate_sort_order_first_violation [of i]) simp_all
next
  show "validate_sort_order
        [[(''asset_id'', PStr ''asset10'')], [(''asset_id'', PStr ''asset2'')],
         [(''asset_id'', PStr ''asset1'')]] = Inr False"
    by code_simp
qed

theorem validate_sort_order_on_sorted_witness:
  "validate_sort_order (fst (sort_assets
      [[(''asset_id'', PStr ''asset10'')], [(''asset_id'', PNone)], [(''asset_id'', PStr ''asset2'')],
       [(''hostname'', PStr ''no_id'')], [(''asset_id'', PStr ''asset1'')]] False)) = Inr True
   \<and> validate_sort_order
        [[(''asset_id'', PStr ''asset1'')], [(''asset_id'', PStr ''asset2'')],
         [(''asset_id'', PNone)], [(''asset_id'', PStr ''asset10'')]] = Inr False"
proof -
  let ?assets = "[[(''asset_id'', PStr ''asset10'')], [(''asset_id'', PNone)], [(''asset_id'', PStr ''asset2'')],
       [(''hostname'', PStr ''no_id'')], [(''asset_id'', PStr ''asset1'')]]"
  let ?s = "[[(''asset_id'', PStr ''asset1'')], [(''asset_id'', PStr ''asset2'')],
       [(''asset_id'', PStr ''asset10'')], [(''asset_id'', PNone)], [(''hostname'', PStr ''no_id'')]]"
  let ?items = "[[(''asset_id'', PStr ''asset1'')], [(''asset_id'', PStr ''asset2'')],
         [(''asset_id'', PNone)], [(''asset_id'', PStr ''asset10'')]]"
  have a: "py_sorted (cmp_lt asset_id_comparator) False ?assets = Inr ?s" by code_simp
  have b: "\<forall>a\<in>set ?assets. id_none_or_truthy a" by (simp add: id_none_or_truthy_def dict_get_def)
  have c: "(2::nat) + 1 < length ?items" by simp
  have b': "\<forall>a\<in>set ?items. id_none_or_truthy a" by (simp add: id_none_or_truthy_def dict_get_def)
  have d0: "asset_id_comparator (?items ! 0) (?items ! 1) = Inr (- 1)" by code_simp
  have d1: "asset_id_comparator (?items ! 1) (?items ! 2) = Inr (- 1)" by code_simp
  have d: "\<forall>k<2. \<exists>c. asset_id_comparator (?items ! k) (?items ! (k + 1)) = Inr c \<and> c \<le> 0"
  proof (intro allI impI)
    fix k :: nat assume "k < 2"
    then have "k = 0 \<or> k = 1" by auto
    then show "\<exists>c. asset_id_comparator (?items ! k) (?items ! (k + 1)) = Inr c \<and> c \<le> 0"
      using d0 d1 by auto
  qed
  have e: "asset_id_comparator (?items ! 2) (?items ! (2 + 1)) = Inr 1" by code_simp
  show ?thesis
    using validate_sort_order_on_sorted [of ?assets ?s 2 ?items] a b b' c d e by blast
qed

text \<open>
  C9 as stated fails: the sort of the assets b, a, 1 raises (a text key against a
  number key), \<open>sort_assets\<close> returns the list as given, and \<open>validate_sort_order\<close>
  returns false on it.
\<close>

theorem validate_rejects_fallback_list:
  "fst (sort_assets [[(''asset_id'', PStr ''b'')], [(''asset_id'', PStr ''a'')],
                     [(''asset_id'', PStr ''1'')]] False)
     = [[(''asset_id'', PStr ''b'')], [(''asset_id'', PStr ''a'')], [(''asset_id'', PStr ''1'')]]
   \<and> validate_sort_order
       (fst (sort_assets [[(''asset_id'', PStr ''b'')], [(''asset_id'', PStr ''a'')],
                          [(''asset_id'', PStr ''1'')]] False)) = Inr False"
  by code_simp

text \<open>
  The two functions disagree on the empty string: the comparator sorts it to the end as
  a missing identifier, the validator reads it as the smallest key. So the validator
  rejects the sorted list a, '' and accepts the list '', a, which is out of order by the
  comparator.
\<close>

lemma validate_rejects_sorted_empty_id:
  "fst (sort_assets [[(''asset_id'', PStr [])], [(''asset_id'', PStr ''a'')]] False)
     = [[(''asset_id'', PStr ''a'')], [(''asset_id'', PStr [])]]
   \<and> validate_sort_order
       (fst (sort_assets [[(''asset_id'', PStr [])], [(''asset_id'', PStr ''a'')]] False)) = Inr False"
  by code_simp

lemma validate_accepts_empty_id_first:
  "asset_id_comparator [(''asset_id'', PStr [])] [(''asset_id'', PStr ''a'')] = Inr 1
   \<and> validate_sort_order [[(''asset_id'', PStr [])], [(''asset_id'', PStr ''a'')]] = Inr True"
  by code_simp

section \<open>differ.py: value comparison\<close>

text \<open>
  The floating-point operations \<open>compare_values\<close> relies on are parameters: \<open>float()\<close>
  of a string (None when it raises ValueError) and of an integer (None when it raises
  OverflowError), subtraction, \<open>abs\<close> and \<open>\<le>\<close> on floats. \<open>'f\<close> is the type of floats.
\<close>

record 'f float_ops =
  float_of_str :: "string \<Rightarrow> 'f option"
  float_of_int :: "int \<Rightarrow> 'f option"
  fsub :: "'f \<Rightarrow> 'f \<Rightarrow> 'f"
  fabs :: "'f \<Rightarrow> 'f"
  fle :: "'f \<Rightarrow> 'f \<Rightarrow> bool"

text \<open>The configuration attributes of a \<open>DifferAgent\<close>.\<close>

record 'f differ_config =
  case_sensitive :: bool
  normalize_whitespace :: bool
  excluded_fields :: "string set"
  tolerance :: 'f

text \<open>\<open>float(value)\<close>; a boolean converts as the integer 0 or 1.\<close>

fun py_float :: "'f float_ops \<Rightarrow> pyval \<Rightarrow> py_exception + 'f" where
  "py_float ops PNone = Inl TypeError"
| "py_float ops (PBool b) =
     (case float_of_int ops (if b then 1 else 0) of None \<Rightarrow> Inl OverflowError | Some x \<Rightarrow> Inr x)"
| "py_float ops (PInt i) =
     (case float_of_int ops i of None \<Rightarrow> Inl OverflowError | Some x \<Rightarrow> Inr x)"
| "py_float ops (PStr s) =
     (case float_of_str ops s of None \<Rightarrow> Inl ValueError | Some x \<Rightarrow> Inr x)"

text \<open>\<open>value.split()\<close> (the words between runs of whitespace) and \<open>' '.join(words)\<close>.\<close>

function py_split :: "string \<Rightarrow> string list" where
  "py_split s =
     (let r = dropWhile py_isspace s
      in if r = [] then []
         else takeWhile (\<lambda>c. \<not> py_isspace c) r # py_split (dropWhile (\<lambda>c. \<not> py_isspace c) r))"
  by pat_completeness auto
termination
proof (relation "measure length")
  show "wf (measure length)" by simp
next
  fix s :: string and r
  assume r: "r = dropWhile py_isspace s" and ne: "r \<noteq> []"
  have "\<not> py_isspace (hd r)"
    using hd_dropWhile [of py_isspace s] r ne by simp
  then have "dropWhile (\<lambda>c. \<not> py_isspace c) r = dropWhile (\<lambda>c. \<not> py_isspace c) (tl r)"
    using ne by (cases r) simp_all
  then have "length (dropWhile (\<lambda>c. \<not> py_isspace c) r) \<le> length (tl r)"
    using length_dropWhile_le [of "\<lambda>c. \<not> py_isspace c" "tl r"] by (simp del: length_tl)
  also have "\<dots> < length r" using ne by (cases r) simp_all
  also have "\<dots> \<le> length s" using r by (simp add: length_dropWhile_le)
  finally show "(dropWhile (\<lambda>c. \<not> py_isspace c) r, s) \<in> measure length" by simp
qed

declare py_split.simps [simp del]

fun join_space :: "string list \<Rightarrow> string" where
  "join_space [] = []"
| "join_space [w] = w"
| "join_space (w # ws) = w @ '' '' @ join_space ws"

definition normalize_value :: "'f differ_config \<Rightarrow> pyval \<Rightarrow> pyval" where
  "normalize_value cfg v =
     (case v of
        PNone \<Rightarrow> PStr ''null''
      | PStr s \<Rightarrow>
          (let s1 = (if normalize_whitespace cfg then join_space (py_split s) else s);
               s2 = (if \<not> case_sensitive cfg then py_lower s1 else s1)
           in PStr s2)
      | other \<Rightarrow> v)"

text \<open>
  \<open>compare_values\<close>. The \<open>try\<close> block converts both values and compares the floats;
  ValueError and TypeError fall through to the comparison of the normalized values, any
  other exception leaves the method.
\<close>

definition compare_values ::
  "'f float_ops \<Rightarrow> 'f differ_config \<Rightarrow> pyval \<Rightarrow> pyval \<Rightarrow> string \<Rightarrow> py_exception + bool" where
  "compare_values ops cfg zabbix_val topdesk_val field =
     (if zabbix_val = PNone \<and> topdesk_val = PNone then Inr True
      else if zabbix_val = PNone \<or> topdesk_val = PNone then Inr False
      else (let zabbix_norm = normalize_value cfg zabbix_val;
                topdesk_norm = normalize_value cfg topdesk_val
            in case py_float ops zabbix_val of
                 Inl OverflowError \<Rightarrow> Inl OverflowError
               | Inl e \<Rightarrow> Inr (py_eq zabbix_norm topdesk_norm)
               | Inr zabbix_num \<Rightarrow>
                  (case py_float ops topdesk_val of
                     Inl OverflowError \<Rightarrow> Inl OverflowError
                   | Inl e \<Rightarrow> Inr (py_eq zabbix_norm topdesk_norm)
                   | Inr topdesk_num \<Rightarrow>
                       Inr (fle ops (fabs ops (fsub ops zabbix_num topdesk_num)) (tolerance cfg)))))"

text \<open>
  An instance of the float operations with exact arithmetic on rationals, reading the
  literals \<open>digits\<close> and \<open>digits.digits\<close> with an optional minus sign and converting
  every integer. It stands in for machine floats where a result is evaluated on concrete
  values, all of them small decimals on which it agrees with \<open>float()\<close>; the theorems
  hold for any float operations.
\<close>

definition decimal_value :: "string \<Rightarrow> rat option" where
  "decimal_value s =
     (let ip = takeWhile is_decimal s; r = dropWhile is_decimal s
      in if ip = [] then None
         else if r = [] then Some (of_nat (digits_value ip))
         else if hd r = CHR ''.'' \<and> tl r \<noteq> [] \<and> list_all is_decimal (tl r)
         then Some (of_nat (digits_value ip) + of_nat (digits_value (tl r)) / 10 ^ length (tl r))
         else None)"

definition exact_float_of_str :: "string \<Rightarrow> rat option" where
  "exact_float_of_str s =
     (case py_strip s of
        [] \<Rightarrow> None
      | c # cs \<Rightarrow> if c = CHR ''-'' then map_option uminus (decimal_value cs) else decimal_value (c # cs))"

definition exact_ops :: "rat float_ops" where
  "exact_ops =
     \<lparr>float_of_str = exact_float_of_str, float_of_int = (\<lambda>i. Some (of_int i)),
      fsub = (\<lambda>a b. a - b), fabs = abs, fle = (\<lambda>a b. a \<le> b)\<rparr>"

text \<open>The default configuration, with the tolerance 0.01.\<close>

definition default_config :: "rat differ_config" where
  "default_config =
     \<lparr>case_sensitive = False, normalize_whitespace = True, excluded_fields = {},
      tolerance = 1 / 100\<rparr>"

section \<open>differ.py: comparing assets\<close>

record difference =
  field_name :: string
  zabbix_value :: pyval
  topdesk_value :: pyval
  difference_type :: string

record comparison_stats =
  total_assets_processed :: nat
  matched_assets :: nat
  zabbix_only :: nat
  topdesk_only :: nat
  assets_with_differences :: nat
  total_differences :: nat

definition initial_stats :: comparison_stats where
  "initial_stats =
     \<lparr>total_assets_processed = 0, matched_assets = 0, zabbix_only = 0, topdesk_only = 0,
      assets_with_differences = 0, total_differences = 0\<rparr>"

text \<open>\<open>_handle_single_system_asset\<close>: one difference per field that is not excluded, in
  the order of the record, behind the presence marker.\<close>

definition handle_single_system_asset ::
  "'f differ_config \<Rightarrow> string \<Rightarrow> asset \<Rightarrow> string \<Rightarrow> difference list" where
  "handle_single_system_asset cfg asset_id asset_data system =
     \<lparr>field_name = ''_system_presence'',
      zabbix_value = PStr (if system = ''zabbix'' then ''present'' else ''absent''),
      topdesk_value = PStr (if system = ''topdesk'' then ''present'' else ''absent''),
      difference_type = ''asset_missing''\<rparr>
     # map (\<lambda>(fld, v).
             \<lparr>field_name = fld,
              zabbix_value = (if system = ''zabbix'' then v else PStr ''null''),
              topdesk_value = (if system = ''topdesk'' then v else PStr ''null''),
              difference_type =
                ''missing_in_'' @ (if system = ''zabbix'' then ''topdesk'' else ''zabbix'')\<rparr>)
         (filter (\<lambda>(fld, v). fld \<notin> excluded_fields cfg) asset_data)"

text \<open>
  The body of the loop of \<open>_compare_matched_assets\<close> for one field name, and the loop.
  \<open>asset.get(field_name)\<close> is None for a missing field.
\<close>

definition compare_field ::
  "'f float_ops \<Rightarrow> 'f differ_config \<Rightarrow> asset \<Rightarrow> asset \<Rightarrow> string
   \<Rightarrow> py_exception + difference list" where
  "compare_field ops cfg zabbix_asset topdesk_asset fld =
     (if fld \<in> excluded_fields cfg then Inr []
      else (let zabbix_v = dict_get zabbix_asset fld PNone;
                topdesk_v = dict_get topdesk_asset fld PNone
            in if map_of zabbix_asset fld = None
               then Inr [\<lparr>field_name = fld, zabbix_value = PStr ''null'',
                          topdesk_value = PStr (py_str topdesk_v),
                          difference_type = ''missing_in_zabbix''\<rparr>]
               else if map_of topdesk_asset fld = None
               then Inr [\<lparr>field_name = fld, zabbix_value = PStr (py_str zabbix_v),
                          topdesk_value = PStr ''null'',
                          difference_type = ''missing_in_topdesk''\<rparr>]
               else (case compare_values ops cfg zabbix_v topdesk_v fld of
                       Inl e \<Rightarrow> Inl e
                     | Inr True \<Rightarrow> Inr []
                     | Inr False \<Rightarrow>
                         Inr [\<lparr>field_name = fld, zabbix_value = PStr (py_str zabbix_v),
                               topdesk_value = PStr (py_str topdesk_v),
                               difference_type = ''value_mismatch''\<rparr>])))"

fun compare_fields ::
  "'f float_ops \<Rightarrow> 'f differ_config \<Rightarrow> asset \<Rightarrow> asset \<Rightarrow> string list
   \<Rightarrow> py_exception + difference list" where
  "compare_fields ops cfg zabbix_asset topdesk_asset [] = Inr []"
| "compare_fields ops cfg zabbix_asset topdesk_asset (fld # rest) =
     (case compare_field ops cfg zabbix_asset topdesk_asset fld of
        Inl e \<Rightarrow> Inl e
      | Inr ds \<Rightarrow>
          (case compare_fields ops cfg zabbix_asset topdesk_asset rest of
             Inl e \<Rightarrow> Inl e
           | Inr ds' \<Rightarrow> Inr (ds @ ds')))"

text \<open>
  A Python set of strings is iterated in an order the program does not control; the
  parameter \<open>set_order\<close> gives the order in which the distinct elements are visited.
\<close>

definition compare_matched_assets ::
  "'f float_ops \<Rightarrow> 'f differ_config \<Rightarrow> (string list \<Rightarrow> string list) \<Rightarrow> asset \<Rightarrow> asset
   \<Rightarrow> py_exception + difference list" where
  "compare_matched_assets ops cfg set_order zabbix_asset topdesk_asset =
     compare_fields ops cfg zabbix_asset topdesk_asset
       (set_order (remdups (map fst zabbix_asset @ map fst topdesk_asset)))"

text \<open>
  The body of the loop of \<open>compare_assets\<close> for one identifier: the branch taken, with
  the counter it increments and the differences it finds; then the bookkeeping for an
  asset with differences. A record that is missing or empty counts as absent.
\<close>

definition classify_asset ::
  "'f float_ops \<Rightarrow> 'f differ_config \<Rightarrow> (string list \<Rightarrow> string list) \<Rightarrow> string
   \<Rightarrow> asset \<Rightarrow> asset \<Rightarrow> comparison_stats \<Rightarrow> py_exception + comparison_stats \<times> difference list" where
  "classify_asset ops cfg set_order asset_id zabbix_asset topdesk_asset st =
     (if zabbix_asset = []
      then Inr (st\<lparr>topdesk_only := topdesk_only st + 1\<rparr>,
                handle_single_system_asset cfg asset_id topdesk_asset ''topdesk'')
      else if topdesk_asset = []
      then Inr (st\<lparr>zabbix_only := zabbix_only st + 1\<rparr>,
                handle_single_system_asset cfg asset_id zabbix_asset ''zabbix'')
      else (case compare_matched_assets ops cfg set_order zabbix_asset topdesk_asset of
              Inl e \<Rightarrow> Inl e
            | Inr ds \<Rightarrow> Inr (st\<lparr>matched_assets := matched_assets st + 1\<rparr>, ds)))"

definition record_differences ::
  "string \<Rightarrow> difference list \<Rightarrow> (string \<times> difference list) list \<Rightarrow> comparison_stats
   \<Rightarrow> (string \<times> difference list) list \<times> comparison_stats" where
  "record_differences asset_id differences all_differences st =
     (if differences \<noteq> []
      then (dict_set asset_id differences all_differences,
            st\<lparr>assets_with_differences := assets_with_differences st + 1,
               total_differences := total_differences st + length differences\<rparr>)
      else (all_differences, st))"

fun compare_assets_loop ::
  "'f float_ops \<Rightarrow> 'f differ_config \<Rightarrow> (string list \<Rightarrow> string list)
   \<Rightarrow> (string \<times> asset) list \<Rightarrow> (string \<times> asset) list \<Rightarrow> string list
   \<Rightarrow> (string \<times> difference list) list \<times> comparison_stats
   \<Rightarrow> py_exception + (string \<times> difference list) list \<times> comparison_stats" where
  "compare_assets_loop ops cfg set_order zabbix_data topdesk_data [] acc = Inr acc"
| "compare_assets_loop ops cfg set_order zabbix_data topdesk_data (asset_id # rest) acc =
     (case classify_asset ops cfg set_order asset_id
             (dict_get zabbix_data asset_id []) (dict_get topdesk_data asset_id []) (snd acc) of
        Inl e \<Rightarrow> Inl e
      | Inr (st1, differences) \<Rightarrow>
          compare_assets_loop ops cfg set_order zabbix_data topdesk_data rest
            (record_differences asset_id differences (fst acc) st1))"

definition compare_assets ::
  "'f float_ops \<Rightarrow> 'f differ_config \<Rightarrow> (string list \<Rightarrow> string list)
   \<Rightarrow> (string \<times> asset) list \<Rightarrow> (string \<times> asset) list \<Rightarrow> comparison_stats
   \<Rightarrow> py_exception + (string \<times> difference list) list \<times> comparison_stats" where
  "compare_assets ops cfg set_order zabbix_data topdesk_data st =
     (let all_asset_ids = set_order (remdups (map fst zabbix_data @ map fst topdesk_data))
      in compare_assets_loop ops cfg set_order zabbix_data topdesk_data all_asset_ids
           ([], st\<lparr>total_assets_processed := length all_asset_ids\<rparr>))"

text \<open>The three categories of an asset identifier, as the loop decides them.\<close>

definition is_topdesk_only :: "(string \<times> asset) list \<Rightarrow> (string \<times> asset) list \<Rightarrow> string \<Rightarrow> bool" where
  "is_topdesk_only zabbix_data topdesk_data asset_id = (dict_get zabbix_data asset_id [] = [])"

definition is_zabbix_only :: "(string \<times> asset) list \<Rightarrow> (string \<times> asset) list \<Rightarrow> string \<Rightarrow> bool" where
  "is_zabbix_only zabbix_data topdesk_data asset_id =
     (dict_get zabbix_data asset_id [] \<noteq> [] \<and> dict_get topdesk_data asset_id [] = [])"

definition is_matched :: "(string \<times> asset) list \<Rightarrow> (string \<times> asset) list \<Rightarrow> string \<Rightarrow> bool" where
  "is_matched zabbix_data topdesk_data asset_id =
     (dict_get zabbix_data asset_id [] \<noteq> [] \<and> dict_get topdesk_data asset_id [] \<noteq> [])"


subsection \<open>The cases of \<open>compare_values\<close>\<close>

lemma py_float_not_TypeError: "v \<noteq> PNone \<Longrightarrow> py_float ops v \<noteq> Inl TypeError"
  by (cases v) (auto split: option.splits)














subsection \<open>The counters of \<open>compare_assets\<close>\<close>

lemma record_differences_counters:
  "topdesk_only (snd (record_differences i d a st)) = topdesk_only st
   \<and> zabbix_only (snd (record_differences i d a st)) = zabbix_only st
   \<and> matched_assets (snd (record_differences i d a st)) = matched_assets st
   \<and> total_assets_processed (snd (record_differences i d a st)) = total_assets_processed st"
  by (simp add: record_differences_def)

text \<open>Each identifier increments exactly the counter of its category.\<close>

lemma classify_asset_counters:
  assumes "classify_asset ops cfg set_order i (dict_get zd i []) (dict_get td i []) st = Inr (st1, d)"
  shows "topdesk_only st1 = topdesk_only st + (if is_topdesk_only zd td i then 1 else 0)
       \<and> zabbix_only st1 = zabbix_only st + (if is_zabbix_only zd td i then 1 else 0)
       \<and> matched_assets st1 = matched_assets st + (if is_matched zd td i then 1 else 0)
       \<and> total_assets_processed st1 = total_assets_processed st"
proof -
  consider (t) "dict_get zd i [] = []"
    | (z) "dict_get zd i [] \<noteq> []" "dict_get td i [] = []"
    | (m) "dict_get zd i [] \<noteq> []" "dict_get td i [] \<noteq> []" by blast
  then show ?thesis
  proof cases
    case t
    then have "st1 = st\<lparr>topdesk_only := topdesk_only st + 1\<rparr>"
      using assms by (simp add: classify_asset_def)
    then show ?thesis using t by (simp add: is_topdesk_only_def is_zabbix_only_def is_matched_def)
  next
    case z
    then have "st1 = st\<lparr>zabbix_only := zabbix_only st + 1\<rparr>"
      using assms by (simp add: classify_asset_def)
    then show ?thesis using z by (simp add: is_topdesk_only_def is_zabbix_only_def is_matched_def)
  next
    case m
    then have "st1 = st\<lparr>matched_assets := matched_assets st + 1\<rparr>"
      using assms by (simp add: classify_asset_def split: sum.splits)
    then show ?thesis using m by (simp add: is_topdesk_only_def is_zabbix_only_def is_matched_def)
  qed
qed

lemma compare_assets_loop_counters:
  assumes "compare_assets_loop ops cfg set_order zd td ids acc = Inr (ds, st')"
  shows "topdesk_only st' = topdesk_only (snd acc) + length (filter (is_topdesk_only zd td) ids)
       \<and> zabbix_only st' = zabbix_only (snd acc) + length (filter (is_zabbix_only zd td) ids)
       \<and> matched_assets st' = matched_assets (snd acc) + length (filter (is_matched zd td) ids)
       \<and> total_assets_processed st' = total_assets_processed (snd acc)"
  using assms
proof (induction ids arbitrary: acc)
  case Nil
  then show ?case by simp
next
  case (Cons i ids)
  obtain st1 d where c: "classify_asset ops cfg set_order i (dict_get zd i []) (dict_get td i []) (snd acc)
      = Inr (st1, d)"
    using Cons.prems
    by (cases "classify_asset ops cfg set_order i (dict_get zd i []) (dict_get td i []) (snd acc)") auto
  then have "compare_assets_loop ops cfg set_order zd td ids (record_differences i d (fst acc) st1)
      = Inr (ds, st')"
    using Cons.prems by simp
  from Cons.IH [OF this] classify_asset_counters [OF c] record_differences_counters [of i d "fst acc" st1]
  show ?case by simp
qed

lemma categories_partition:
  "length (filter (is_topdesk_only zd td) ids) + length (filter (is_zabbix_only zd td) ids)
     + length (filter (is_matched zd td) ids) = length ids"
  by (induction ids) (auto simp: is_topdesk_only_def is_zabbix_only_def is_matched_def)

lemma length_filter_perm: "mset xs = mset ys \<Longrightarrow> length (filter P xs) = length (filter P ys)"
proof -
  assume "mset xs = mset ys"
  then have "mset (filter P xs) = mset (filter P ys)" by simp
  then show ?thesis by (rule mset_eq_length)
qed

subsection \<open>\<open>compare_assets\<close> returns unless \<open>float()\<close> overflows\<close>

lemma compare_values_returns:
  assumes "\<forall>i. float_of_int ops i \<noteq> None"
  shows "\<exists>r. compare_values ops cfg z t fld = Inr r"
proof -
  have nz: "py_float ops v \<noteq> Inl OverflowError" for v
    by (cases v) (simp_all add: assms split: option.splits)
  show ?thesis
  proof (cases "py_float ops z")
    case (Inl e)
    then have "e \<noteq> OverflowError" using nz [of z] by auto
    then show ?thesis using Inl by (cases e) (auto simp: compare_values_def Let_def)
  next
    case zr: (Inr a)
    show ?thesis
    proof (cases "py_float ops t")
      case (Inl e)
      then have "e \<noteq> OverflowError" using nz [of t] by auto
      then show ?thesis using Inl zr by (cases e) (auto simp: compare_values_def Let_def)
    next
      case (Inr b)
      then show ?thesis using zr by (auto simp: compare_values_def Let_def)
    qed
  qed
qed

lemma compare_field_returns:
  assumes "\<forall>i. float_of_int ops i \<noteq> None"
  shows "\<exists>r. compare_field ops cfg za ta fld = Inr r"
proof -
  obtain b where "compare_values ops cfg (dict_get za fld PNone) (dict_get ta fld PNone) fld = Inr b"
    using compare_values_returns [OF assms] by blast
  then show ?thesis by (cases b) (simp_all add: compare_field_def Let_def)
qed

lemma compare_fields_returns:
  assumes "\<forall>i. float_of_int ops i \<noteq> None"
  shows "\<exists>r. compare_fields ops cfg za ta flds = Inr r"
proof (induction flds)
  case Nil
  show ?case by simp
next
  case (Cons f flds)
  obtain d where "compare_field ops cfg za ta f = Inr d" using compare_field_returns [OF assms] by blast
  moreover obtain d' where "compare_fields ops cfg za ta flds = Inr d'" using Cons by blast
  ultimately show ?case by simp
qed

lemma compare_assets_loop_returns:
  assumes "\<forall>i. float_of_int ops i \<noteq> None"
  shows "\<exists>r. compare_assets_loop ops cfg set_order zd td ids acc = Inr r"
proof (induction ids arbitrary: acc)
  case Nil
  show ?case by simp
next
  case (Cons i ids)
  obtain d where d: "compare_matched_assets ops cfg set_order (dict_get zd i []) (dict_get td i []) = Inr d"
    using compare_fields_returns [OF assms] unfolding compare_matched_assets_def by blast
  then have "\<exists>st1 d'. classify_asset ops cfg set_order i (dict_get zd i []) (dict_get td i []) (snd acc)
      = Inr (st1, d')"
    by (simp add: classify_asset_def)
  then obtain st1 d' where "classify_asset ops cfg set_order i (dict_get zd i []) (dict_get td i []) (snd acc)
      = Inr (st1, d')"
    by blast
  then show ?case using Cons [of "record_differences i d' (fst acc) st1"] by simp
qed

section \<open>differ.py: the difference document and its file\<close>

text \<open>
  \<open>datetime.now().isoformat()\<close>: the clock reading is a parameter, formatted as
  \<open>YYYY-MM-DDTHH:MM:SS\<close> with the microseconds appended when they are not zero.
\<close>

record datetime =
  dt_year :: nat
  dt_month :: nat
  dt_day :: nat
  dt_hour :: nat
  dt_minute :: nat
  dt_second :: nat
  dt_microsecond :: nat

definition zero_pad :: "nat \<Rightarrow> nat \<Rightarrow> string" where
  "zero_pad width n = replicate (width - length (str_nat n)) CHR ''0'' @ str_nat n"

definition isoformat :: "datetime \<Rightarrow> string" where
  "isoformat d =
     zero_pad 4 (dt_year d) @ ''-'' @ zero_pad 2 (dt_month d) @ ''-'' @ zero_pad 2 (dt_day d)
     @ ''T'' @ zero_pad 2 (dt_hour d) @ '':'' @ zero_pad 2 (dt_minute d) @ '':''
     @ zero_pad 2 (dt_second d)
     @ (if dt_microsecond d \<noteq> 0 then ''.'' @ zero_pad 6 (dt_microsecond d) else [])"

text \<open>
  \<open>round(x, 2)\<close> and the text of the rounded score. The score is kept as an exact
  rational: the nearest multiple of 0.01, ties to the even one; its text is the shortest
  decimal numeral with at least one digit after the point. Python rounds the float
  that is nearest to the product, so the two agree where quotient and product are exact
  in floats, as they are at the score 0 of a document whose differences all have distinct
  field names; they can differ in the last digit at a tie.
\<close>

definition py_round2 :: "rat \<Rightarrow> rat" where
  "py_round2 x =
     (let y = x * 100; f = \<lfloor>y\<rfloor>; d = y - of_int f
      in of_int (if d < 1 / 2 then f
                 else if 1 / 2 < d then f + 1
                 else if even f then f else f + 1) / 100)"

definition score_text :: "rat \<Rightarrow> string" where
  "score_text x =
     (let h = nat \<bar>\<lfloor>x * 100\<rfloor>\<bar>; fr = h mod 100
      in (if x < 0 then ''-'' else []) @ str_nat (h div 100) @ ''.''
         @ (if fr mod 10 = 0 then [digit_char (fr div 10)]
            else [digit_char (fr div 10), digit_char (fr mod 10)]))"

text \<open>The dictionary \<open>dif_content\<close>; \<open>note\<close> and \<open>similarity_score\<close> are optional keys.\<close>

record dif_summary =
  value_mismatches :: nat
  missing_in_zabbix :: nat
  missing_in_topdesk :: nat

record dif_entry =
  entry_field_name :: string
  entry_zabbix_value :: pyval
  entry_topdesk_value :: pyval

record dif_content =
  dc_asset_id :: string
  dc_timestamp :: string
  dc_total_differences :: nat
  dc_differences :: "dif_entry list"
  dc_note :: "string option"
  dc_summary :: dif_summary
  dc_similarity_score :: "rat option"

text \<open>The last difference of type \<open>asset_missing\<close>, if any.\<close>

definition find_asset_missing :: "difference list \<Rightarrow> difference option" where
  "find_asset_missing differences =
     (case filter (\<lambda>d. difference_type d = ''asset_missing'') differences of
        [] \<Rightarrow> None
      | d # ds \<Rightarrow> Some (last (d # ds)))"

definition count_type :: "string \<Rightarrow> difference list \<Rightarrow> nat" where
  "count_type ty differences = length (filter (\<lambda>d. difference_type d = ty) differences)"

text \<open>The similarity score as \<open>generate_dif_file\<close> computes it.\<close>

definition similarity_score :: "difference list \<Rightarrow> rat option" where
  "similarity_score differences =
     (if find_asset_missing differences = None \<and> differences \<noteq> []
      then (let total_fields =
                  length (remdups (map field_name
                    (filter (\<lambda>d. field_name d \<noteq> ''_system_presence'') differences)));
                matching_fields = int total_fields - int (length differences)
            in if total_fields > 0
               then Some (py_round2 (of_int matching_fields / of_nat total_fields * 100))
               else None)
      else None)"

definition make_dif_content :: "datetime \<Rightarrow> string \<Rightarrow> difference list \<Rightarrow> dif_content" where
  "make_dif_content now asset_id differences =
     \<lparr>dc_asset_id = asset_id,
      dc_timestamp = isoformat now,
      dc_total_differences = length differences,
      dc_differences =
        map (\<lambda>d. \<lparr>entry_field_name = field_name d, entry_zabbix_value = zabbix_value d,
                   entry_topdesk_value = topdesk_value d\<rparr>)
          (filter (\<lambda>d. field_name d \<noteq> ''_system_presence'') differences),
      dc_note =
        (case find_asset_missing differences of
           None \<Rightarrow> None
         | Some am \<Rightarrow>
             if py_eq (zabbix_value am) (PStr ''absent'')
             then Some ''Asset exists only in Topdesk system''
             else Some ''Asset exists only in Zabbix system''),
      dc_summary =
        \<lparr>value_mismatches = count_type ''value_mismatch'' differences,
         missing_in_zabbix = count_type ''missing_in_zabbix'' differences,
         missing_in_topdesk = count_type ''missing_in_topdesk'' differences\<rparr>,
      dc_similarity_score = similarity_score differences\<rparr>"

text \<open>
  The text written to the file, as the list of its lines: every \<open>write\<close> call ends its
  text with a newline, and the first call of the trailer starts with one.
\<close>

definition DQ :: char where
  "DQ = CHR 0x22"

definition entry_lines :: "dif_entry \<Rightarrow> string list" where
  "entry_lines e =
     [''  - field_name: '' @ entry_field_name e,
      ''    zabbix_value: '' @ [DQ] @ py_str (entry_zabbix_value e) @ [DQ],
      ''    topdesk_value: '' @ [DQ] @ py_str (entry_topdesk_value e) @ [DQ]]"

definition trailer_lines :: "dif_content \<Rightarrow> string list" where
  "trailer_lines dc =
     [[], ''# Generated: '' @ dc_timestamp dc,
      ''# Total differences: '' @ str_nat (dc_total_differences dc)]
     @ (case dc_similarity_score dc of
          None \<Rightarrow> []
        | Some sc \<Rightarrow> [''# Similarity score: '' @ score_text sc @ ''%''])
     @ [''# Value mismatches: '' @ str_nat (value_mismatches (dc_summary dc)),
        ''# Missing in Zabbix: '' @ str_nat (missing_in_zabbix (dc_summary dc)),
        ''# Missing in Topdesk: '' @ str_nat (missing_in_topdesk (dc_summary dc))]"

definition dif_file_lines :: "dif_content \<Rightarrow> string list" where
  "dif_file_lines dc =
     [''asset_id: '' @ dc_asset_id dc]
     @ (case dc_note dc of None \<Rightarrow> [] | Some n \<Rightarrow> [''note: '' @ n])
     @ [''differences:'']
     @ concat (map entry_lines (dc_differences dc))
     @ trailer_lines dc"

definition dif_file_text :: "dif_content \<Rightarrow> string" where
  "dif_file_text dc = concat (map (\<lambda>l. l @ [CHR 0x0A]) (dif_file_lines dc))"

text \<open>
  The file system, as far as \<open>generate_dif_file\<close> meets it: the path that \<open>pathlib\<close>
  makes of the output directory and a file name, and whether \<open>open(path, 'w')\<close> succeeds
  (it raises OSError otherwise).
\<close>

record file_system =
  path_join :: "string \<Rightarrow> string \<Rightarrow> string"
  can_write :: "string \<Rightarrow> bool"

text \<open>
  \<open>generate_dif_file\<close> builds the document, writes the text to the file and returns the
  path; the second component of the result is the text the file holds.
\<close>

definition generate_dif_file ::
  "file_system \<Rightarrow> string \<Rightarrow> datetime \<Rightarrow> string \<Rightarrow> difference list
   \<Rightarrow> py_exception + string \<times> string" where
  "generate_dif_file fs output_dir now asset_id differences =
     (let dif_content = make_dif_content now asset_id differences;
          filepath = path_join fs output_dir (asset_id @ ''.dif'')
      in if can_write fs filepath then Inr (filepath, dif_file_text dif_content)
         else Inl OSError)"

text \<open>
  A file system that joins with a slash and lets every file be written; it stands in
  where a result is evaluated on concrete values.
\<close>

definition plain_fs :: file_system where
  "plain_fs = \<lparr>path_join = (\<lambda>d f. d @ ''/'' @ f), can_write = (\<lambda>p. True)\<rparr>"

section \<open>differ.py: \<open>process_comparison\<close>\<close>

text \<open>
  The loop over \<open>all_differences.items()\<close>: one file per asset with differences, in
  the order of insertion; \<open>clock k\<close> is the reading of \<open>datetime.now()\<close> in the call
  for file number \<open>k\<close>.
\<close>

fun generate_files ::
  "file_system \<Rightarrow> string \<Rightarrow> (nat \<Rightarrow> datetime) \<Rightarrow> nat \<Rightarrow> (string \<times> difference list) list
   \<Rightarrow> py_exception + (string \<times> string) list" where
  "generate_files fs output_dir clock k [] = Inr []"
| "generate_files fs output_dir clock k (item # rest) =
     (case generate_dif_file fs output_dir (clock k) (fst item) (snd item) of
        Inl e \<Rightarrow> Inl e
      | Inr file \<Rightarrow>
          (case generate_files fs output_dir clock (k + 1) rest of
             Inl e \<Rightarrow> Inl e
           | Inr generated_files \<Rightarrow> Inr (file # generated_files)))"

text \<open>
  \<open>process_comparison\<close> resets the statistics, whatever they were (\<open>st\<close>), compares, and
  writes the files. It returns the files (path and text) and the statistics.
\<close>

definition process_comparison ::
  "'f float_ops \<Rightarrow> 'f differ_config \<Rightarrow> (string list \<Rightarrow> string list) \<Rightarrow> file_system \<Rightarrow> string
   \<Rightarrow> (nat \<Rightarrow> datetime) \<Rightarrow> (string \<times> asset) list \<Rightarrow> (string \<times> asset) list \<Rightarrow> comparison_stats
   \<Rightarrow> py_exception + (string \<times> string) list \<times> comparison_stats" where
  "process_comparison ops cfg set_order fs output_dir clock zabbix_data topdesk_data st =
     (case compare_assets ops cfg set_order zabbix_data topdesk_data initial_stats of
        Inl e \<Rightarrow> Inl e
      | Inr (all_differences, stats) \<Rightarrow>
          (case generate_files fs output_dir clock 0 all_differences of
             Inl e \<Rightarrow> Inl e
           | Inr generated_files \<Rightarrow> Inr (generated_files, stats)))"

lemma generate_files_returns:
  assumes "\<forall>p. can_write fs p"
  shows "\<exists>files. generate_files fs output_dir clock k items = Inr files"
proof (induction items arbitrary: k)
  case Nil
  show ?case by simp
next
  case (Cons item items)
  obtain files where "generate_files fs output_dir clock (k + 1) items = Inr files"
    using Cons by blast
  then show ?case using assms by (simp add: generate_dif_file_def Let_def)
qed

text \<open>
  C6 (as amended). For every iteration order of the identifier set, a run of
  \<open>compare_assets\<close> that returns has added to each of \<open>topdesk_only\<close>, \<open>zabbix_only\<close> and
  \<open>matched_assets\<close> the number of distinct identifiers of that category, every identifier
  belongs to exactly one category, and \<open>total_assets_processed\<close> is set to the number of
  distinct identifiers. So the sum of the three counters grows by
  \<open>total_assets_processed\<close>, and equals it when the three counters were zero before the
  run: on a fresh agent, and in every run of \<open>process_comparison\<close>, which resets them.
  Both return unless \<open>float()\<close> overflows on an integer or a file cannot be written.
\<close>

theorem compare_assets_counters:
  "((\<forall>xs. mset (set_order xs) = mset xs)
      \<and> compare_assets ops cfg set_order zd td st = Inr (ds, st')
     \<longrightarrow> topdesk_only st'
           = topdesk_only st
             + length (filter (is_topdesk_only zd td) (remdups (map fst zd @ map fst td)))
         \<and> zabbix_only st'
           = zabbix_only st
             + length (filter (is_zabbix_only zd td) (remdups (map fst zd @ map fst td)))
         \<and> matched_assets st'
           = matched_assets st
             + length (filter (is_matched zd td) (remdups (map fst zd @ map fst td)))
         \<and> total_assets_processed st' = card (fst ` set zd \<union> fst ` set td)
         \<and> matched_assets st' + zabbix_only st' + topdesk_only st'
           = matched_assets st + zabbix_only st + topdesk_only st + total_assets_processed st'
         \<and> (matched_assets st = 0 \<and> zabbix_only st = 0 \<and> topdesk_only st = 0
              \<longrightarrow> matched_assets st' + zabbix_only st' + topdesk_only st'
                    = total_assets_processed st'))
   \<and> (is_topdesk_only zd td i \<and> \<not> is_zabbix_only zd td i \<and> \<not> is_matched zd td i
       \<or> \<not> is_topdesk_only zd td i \<and> is_zabbix_only zd td i \<and> \<not> is_matched zd td i
       \<or> \<not> is_topdesk_only zd td i \<and> \<not> is_zabbix_only zd td i \<and> is_matched zd td i)
   \<and> ((\<forall>n. float_of_int ops n \<noteq> None)
        \<longrightarrow> (\<exists>r. compare_assets ops cfg set_order zd td st = Inr r))
   \<and> ((\<forall>xs. mset (set_order xs) = mset xs)
      \<and> process_comparison ops cfg set_order fs output_dir clock zd td st = Inr (files, fin)
     \<longrightarrow> matched_assets fin + zabbix_only fin + topdesk_only fin = total_assets_processed fin
         \<and> total_assets_processed fin = card (fst ` set zd \<union> fst ` set td))
   \<and> ((\<forall>n. float_of_int ops n \<noteq> None) \<and> (\<forall>p. can_write fs p)
        \<longrightarrow> (\<exists>r. process_comparison ops cfg set_order fs output_dir clock zd td st = Inr r))"
proof -
  have cats: "is_topdesk_only zd td i \<and> \<not> is_zabbix_only zd td i \<and> \<not> is_matched zd td i
       \<or> \<not> is_topdesk_only zd td i \<and> is_zabbix_only zd td i \<and> \<not> is_matched zd td i
       \<or> \<not> is_topdesk_only zd td i \<and> \<not> is_zabbix_only zd td i \<and> is_matched zd td i"
    by (auto simp: is_topdesk_only_def is_zabbix_only_def is_matched_def)
  have ret: "\<exists>r. compare_assets ops cfg set_order zd td s0 = Inr r"
    if "\<forall>n. float_of_int ops n \<noteq> None" for s0
    using that unfolding compare_assets_def Let_def by (rule compare_assets_loop_returns)
  have run: "topdesk_only s1
           = topdesk_only s0
             + length (filter (is_topdesk_only zd td) (remdups (map fst zd @ map fst td)))
         \<and> zabbix_only s1
           = zabbix_only s0
             + length (filter (is_zabbix_only zd td) (remdups (map fst zd @ map fst td)))
         \<and> matched_assets s1
           = matched_assets s0
             + length (filter (is_matched zd td) (remdups (map fst zd @ map fst td)))
         \<and> total_assets_processed s1 = card (fst ` set zd \<union> fst ` set td)
         \<and> matched_assets s1 + zabbix_only s1 + topdesk_only s1
           = matched_assets s0 + zabbix_only s0 + topdesk_only s0 + total_assets_processed s1"
    if a: "(\<forall>xs. mset (set_order xs) = mset xs)
      \<and> compare_assets ops cfg set_order zd td s0 = Inr (d1, s1)" for s0 d1 s1
  proof -
    let ?ids = "remdups (map fst zd @ map fst td)"
    let ?st0 = "s0\<lparr>total_assets_processed := length (set_order ?ids)\<rparr>"
    have perm: "mset (set_order ?ids) = mset ?ids" using a by blast
    have loop: "compare_assets_loop ops cfg set_order zd td (set_order ?ids) ([], ?st0) = Inr (d1, s1)"
      using a by (simp add: compare_assets_def Let_def)
    have cnt: "length (filter P (set_order ?ids)) = length (filter P ?ids)" for P
      using perm by (rule length_filter_perm)
    have len: "length (set_order ?ids) = length ?ids" using perm by (rule mset_eq_length)
    have card: "length ?ids = card (fst ` set zd \<union> fst ` set td)"
      by (simp add: length_remdups_card_conv)
    note c = compare_assets_loop_counters [OF loop]
    have t: "topdesk_only s1 = topdesk_only s0 + length (filter (is_topdesk_only zd td) ?ids)"
      using c cnt by simp
    have z: "zabbix_only s1 = zabbix_only s0 + length (filter (is_zabbix_only zd td) ?ids)"
      using c cnt by simp
    have m: "matched_assets s1 = matched_assets s0 + length (filter (is_matched zd td) ?ids)"
      using c cnt by simp
    have tot: "total_assets_processed s1 = card (fst ` set zd \<union> fst ` set td)"
      using c len card by simp
    have sum: "matched_assets s1 + zabbix_only s1 + topdesk_only s1
           = matched_assets s0 + zabbix_only s0 + topdesk_only s0 + total_assets_processed s1"
      using t z m tot card categories_partition [of zd td ?ids] by simp
    show ?thesis using t z m tot sum by (intro conjI)
  qed
  have zero: "matched_assets s1 + zabbix_only s1 + topdesk_only s1 = total_assets_processed s1"
    if "(\<forall>xs. mset (set_order xs) = mset xs)
      \<and> compare_assets ops cfg set_order zd td s0 = Inr (d1, s1)"
      "matched_assets s0 = 0 \<and> zabbix_only s0 = 0 \<and> topdesk_only s0 = 0" for s0 d1 s1
    using run [OF that(1)] that(2) by simp
  have proc: "matched_assets fin + zabbix_only fin + topdesk_only fin = total_assets_processed fin
         \<and> total_assets_processed fin = card (fst ` set zd \<union> fst ` set td)"
    if p: "(\<forall>xs. mset (set_order xs) = mset xs)
      \<and> process_comparison ops cfg set_order fs output_dir clock zd td st = Inr (files, fin)"
  proof -
    obtain d1 where c: "compare_assets ops cfg set_order zd td initial_stats = Inr (d1, fin)"
      using p by (auto simp: process_comparison_def split: sum.splits prod.splits)
    have z: "matched_assets initial_stats = 0 \<and> zabbix_only initial_stats = 0
             \<and> topdesk_only initial_stats = 0"
      by (simp add: initial_stats_def)
    show ?thesis using zero [of initial_stats d1 fin] run [of initial_stats d1 fin] p c z by blast
  qed
  have pret: "\<exists>r. process_comparison ops cfg set_order fs output_dir clock zd td st = Inr r"
    if h: "(\<forall>n. float_of_int ops n \<noteq> None) \<and> (\<forall>p. can_write fs p)"
  proof -
    have fl: "\<forall>n. float_of_int ops n \<noteq> None" and wr: "\<forall>p. can_write fs p"
      using h by blast+
    obtain r where "compare_assets ops cfg set_order zd td initial_stats = Inr r"
      using ret [OF fl, of initial_stats] by blast
    then obtain d1 s1 where c: "compare_assets ops cfg set_order zd td initial_stats = Inr (d1, s1)"
      by (cases r) simp
    obtain gf where "generate_files fs output_dir clock 0 d1 = Inr gf"
      using generate_files_returns [OF wr, of output_dir clock 0 d1] by blast
    then show ?thesis using c by (simp add: process_comparison_def)
  qed
  show ?thesis using cats ret run zero proc pret by (intro conjI impI) blast+
qed

theorem compare_assets_counters_witness:
  "compare_assets exact_ops default_config (\<lambda>xs. xs)
     [(''A'', [(''ip'', PStr ''1.1.1.1'')]), (''C'', [(''os'', PStr ''Linux'')])]
     [(''A'', [(''ip'', PStr ''1.1.1.2'')]), (''B'', [(''os'', PStr ''Linux'')])]
     initial_stats
   = Inr ([(''C'', [\<lparr>field_name = ''_system_presence'', zabbix_value = PStr ''present'',
                      topdesk_value = PStr ''absent'', difference_type = ''asset_missing''\<rparr>,
                    \<lparr>field_name = ''os'', zabbix_value = PStr ''Linux'',
                      topdesk_value = PStr ''null'', difference_type = ''missing_in_topdesk''\<rparr>]),
           (''A'', [\<lparr>field_name = ''ip'', zabbix_value = PStr ''1.1.1.1'',
                      topdesk_value = PStr ''1.1.1.2'', difference_type = ''value_mismatch''\<rparr>]),
           (''B'', [\<lparr>field_name = ''_system_presence'', zabbix_value = PStr ''absent'',
                      topdesk_value = PStr ''present'', difference_type = ''asset_missing''\<rparr>,
                    \<lparr>field_name = ''os'', zabbix_value = PStr ''null'',
                      topdesk_value = PStr ''Linux'', difference_type = ''missing_in_zabbix''\<rparr>])],
          \<lparr>total_assets_processed = 3, matched_assets = 1, zabbix_only = 1, topdesk_only = 1,
           assets_with_differences = 3, total_differences = 5\<rparr>)
   \<and> card (fst ` set [(''A'', [(''ip'', PStr ''1.1.1.1'')]), (''C'', [(''os'', PStr ''Linux'')])]
           \<union> fst ` set [(''A'', [(''ip'', PStr ''1.1.1.2'')]), (''B'', [(''os'', PStr ''Linux'')])]) = 3
   \<and> (\<exists>r. compare_assets exact_ops default_config (\<lambda>xs. xs)
         [(''A'', [(''ip'', PStr ''1.1.1.1'')]), (''C'', [(''os'', PStr ''Linux'')])]
         [(''A'', [(''ip'', PStr ''1.1.1.2'')]), (''B'', [(''os'', PStr ''Linux'')])]
         initial_stats = Inr r)
   \<and> (\<exists>files fin. process_comparison exact_ops default_config (\<lambda>xs. xs) plain_fs ''differences''
         (\<lambda>k. \<lparr>dt_year = 2024, dt_month = 3, dt_day = 9, dt_hour = 7, dt_minute = 5,
                dt_second = k, dt_microsecond = 0\<rparr>)
         [(''A'', [(''ip'', PStr ''1.1.1.1'')]), (''C'', [(''os'', PStr ''Linux'')])]
         [(''A'', [(''ip'', PStr ''1.1.1.2'')]), (''B'', [(''os'', PStr ''Linux'')])]
         \<lparr>total_assets_processed = 3, matched_assets = 1, zabbix_only = 1, topdesk_only = 1,
          assets_with_differences = 3, total_differences = 5\<rparr> = Inr (files, fin)
        \<and> matched_assets fin + zabbix_only fin + topdesk_only fin = 3
        \<and> total_assets_processed fin = 3)"
proof -
  let ?zd = "[(''A'', [(''ip'', PStr ''1.1.1.1'')]), (''C'', [(''os'', PStr ''Linux'')])]"
  let ?td = "[(''A'', [(''ip'', PStr ''1.1.1.2'')]), (''B'', [(''os'', PStr ''Linux'')])]"
  let ?ds = "[(''C'', [\<lparr>field_name = ''_system_presence'', zabbix_value = PStr ''present'',
                      topdesk_value = PStr ''absent'', difference_type = ''asset_missing''\<rparr>,
                    \<lparr>field_name = ''os'', zabbix_value = PStr ''Linux'',
                      topdesk_value = PStr ''null'', difference_type = ''missing_in_topdesk''\<rparr>]),
           (''A'', [\<lparr>field_name = ''ip'', zabbix_value = PStr ''1.1.1.1'',
                      topdesk_value = PStr ''1.1.1.2'', difference_type = ''value_mismatch''\<rparr>]),
           (''B'', [\<lparr>field_name = ''_system_presence'', zabbix_value = PStr ''absent'',
                      topdesk_value = PStr ''present'', difference_type = ''asset_missing''\<rparr>,
                    \<lparr>field_name = ''os'', zabbix_value = PStr ''null'',
                      topdesk_value = PStr ''Linux'', difference_type = ''missing_in_zabbix''\<rparr>])]"
  let ?st = "\<lparr>total_assets_processed = 3, matched_assets = 1, zabbix_only = 1, topdesk_only = 1,
           assets_with_differences = 3, total_differences = 5\<rparr>"
  let ?clock = "\<lambda>k. \<lparr>dt_year = 2024, dt_month = 3, dt_day = 9, dt_hour = 7, dt_minute = 5,
                dt_second = k, dt_microsecond = 0\<rparr>"
  have run: "compare_assets exact_ops default_config (\<lambda>xs. xs) ?zd ?td initial_stats = Inr (?ds, ?st)"
    by code_simp
  have perm: "\<forall>xs :: string list. mset ((\<lambda>xs. xs) xs) = mset xs" by simp
  have tot: "\<forall>n. float_of_int exact_ops n \<noteq> None" by (simp add: exact_ops_def)
  have wr: "\<forall>p. can_write plain_fs p" by (simp add: plain_fs_def)
  note inst = compare_assets_counters
      [where set_order = "\<lambda>xs. xs" and ops = exact_ops and cfg = default_config and zd = ?zd
         and td = ?td and fs = plain_fs and output_dir = "''differences''" and clock = ?clock]
  have "total_assets_processed ?st = card (fst ` set ?zd \<union> fst ` set ?td)"
    using inst [where st = initial_stats and ds = ?ds and st' = ?st, THEN conjunct1, THEN mp,
                OF conjI [OF perm run]]
    by (elim conjE)
  then have card: "card (fst ` set ?zd \<union> fst ` set ?td) = 3" by simp
  have ret: "\<exists>r. compare_assets exact_ops default_config (\<lambda>xs. xs) ?zd ?td initial_stats = Inr r"
    using inst [where st = initial_stats, THEN conjunct2, THEN conjunct2, THEN conjunct1, THEN mp,
                OF tot] .
  have "\<exists>r. process_comparison exact_ops default_config (\<lambda>xs. xs) plain_fs ''differences''
          ?clock ?zd ?td ?st = Inr r"
    using inst [where st = ?st, THEN conjunct2, THEN conjunct2, THEN conjunct2, THEN conjunct2,
                THEN mp, OF conjI [OF tot wr]] .
  then obtain files fin where r: "process_comparison exact_ops default_config (\<lambda>xs. xs) plain_fs
          ''differences'' ?clock ?zd ?td ?st = Inr (files, fin)"
    by force
  have "matched_assets fin + zabbix_only fin + topdesk_only fin = total_assets_processed fin
        \<and> total_assets_processed fin = card (fst ` set ?zd \<union> fst ` set ?td)"
    using inst [where st = ?st and files = files and fin = fin, THEN conjunct2, THEN conjunct2,
                THEN conjunct2, THEN conjunct1, THEN mp, OF conjI [OF perm r]] .
  then have "matched_assets fin + zabbix_only fin + topdesk_only fin = 3
             \<and> total_assets_processed fin = 3"
    using card by simp
  then have proc: "\<exists>files fin. process_comparison exact_ops default_config (\<lambda>xs. xs) plain_fs
          ''differences'' ?clock ?zd ?td ?st = Inr (files, fin)
        \<and> matched_assets fin + zabbix_only fin + topdesk_only fin = 3
        \<and> total_assets_processed fin = 3"
    using r by blast
  show ?thesis using run card ret proc by (intro conjI)
qed

text \<open>
  C6 as stated fails: \<open>compare_assets\<close> adds to the three counters and only assigns
  \<open>total_assets_processed\<close>. A second call on the same agent, for the records A (in
  Zabbix only) and B (in Topdesk only), leaves the three counters at 0, 2 and 2 against
  two assets processed.
\<close>

theorem compare_assets_second_run_accumulates:
  "map_sum id snd
     (compare_assets exact_ops default_config (\<lambda>xs. xs)
        [(''A'', [(''ip'', PStr ''1.1.1.1'')])] [(''B'', [(''ip'', PStr ''1.1.1.2'')])]
        initial_stats)
     = Inr \<lparr>total_assets_processed = 2, matched_assets = 0, zabbix_only = 1, topdesk_only = 1,
            assets_with_differences = 2, total_differences = 4\<rparr>
   \<and> map_sum id snd
       (compare_assets exact_ops default_config (\<lambda>xs. xs)
          [(''A'', [(''ip'', PStr ''1.1.1.1'')])] [(''B'', [(''ip'', PStr ''1.1.1.2'')])]
          \<lparr>total_assets_processed = 2, matched_assets = 0, zabbix_only = 1, topdesk_only = 1,
           assets_with_differences = 2, total_differences = 4\<rparr>)
     = Inr \<lparr>total_assets_processed = 2, matched_assets = 0, zabbix_only = 2, topdesk_only = 2,
            assets_with_differences = 4, total_differences = 8\<rparr>
   \<and> (0::nat) + 2 + 2 \<noteq> 2"
  by code_simp

section \<open>differ_utils.py: parsing a difference file\<close>

text \<open>
  \<open>f.readlines()\<close> on a file opened in text mode: a line ends at LF, at CR or at CR LF,
  and each of them is read as LF.
\<close>

fun py_readlines :: "string \<Rightarrow> string list" where
  "py_readlines [] = []"
| "py_readlines (c # cs) =
     (if c = CHR 0x0A then [CHR 0x0A] # py_readlines cs
      else if c = CHR 0x0D
      then (case cs of
              [] \<Rightarrow> [[CHR 0x0A]]
            | d # ds \<Rightarrow> [CHR 0x0A] # py_readlines (if d = CHR 0x0A then ds else cs))
      else (case py_readlines cs of
              [] \<Rightarrow> [[c]]
            | l # ls \<Rightarrow> (c # l) # ls))"

text \<open>The parsed dictionaries; a key that was not set is None.\<close>

record parsed_diff =
  pd_field_name :: "string option"
  pd_zabbix_value :: "string option"
  pd_topdesk_value :: "string option"

record parsed_data =
  pr_asset_id :: "string option"
  pr_note :: "string option"
  pr_differences :: "parsed_diff list"
  pr_metadata :: "(string \<times> string) list"

definition empty_diff :: parsed_diff where
  "empty_diff = \<lparr>pd_field_name = None, pd_zabbix_value = None, pd_topdesk_value = None\<rparr>"

definition initial_parsed :: parsed_data where
  "initial_parsed = \<lparr>pr_asset_id = None, pr_note = None, pr_differences = [], pr_metadata = []\<rparr>"

text \<open>\<open>line.startswith(p)\<close>, \<open>line.split(':', 1)[1]\<close> and \<open>value.strip('"')\<close>.\<close>

definition startswith :: "string \<Rightarrow> string \<Rightarrow> bool" where
  "startswith p line = (take (length p) line = p)"

definition after_colon :: "string \<Rightarrow> string" where
  "after_colon line = drop 1 (dropWhile (\<lambda>c. c \<noteq> CHR '':'') line)"

definition strip_quotes :: "string \<Rightarrow> string" where
  "strip_quotes s = rev (dropWhile (\<lambda>c. c = DQ) (rev (dropWhile (\<lambda>c. c = DQ) s)))"

text \<open>\<open>key.replace(' ', '_').lower()\<close>\<close>

definition metadata_key :: "string \<Rightarrow> string" where
  "metadata_key k = py_lower (map (\<lambda>c. if c = CHR '' '' then CHR ''_'' else c) k)"

text \<open>
  The state of the loop: the parsed data, whether \<open>current_section\<close> is
  \<open>'differences'\<close>, and \<open>current_diff\<close>. The match of the comment pattern is the
  parameter \<open>comment_match\<close>, giving the key and the value of a comment line that matches.
\<close>

definition push_diff :: "parsed_diff \<Rightarrow> parsed_data \<Rightarrow> parsed_data" where
  "push_diff cur pd =
     (if cur \<noteq> empty_diff then pd\<lparr>pr_differences := pr_differences pd @ [cur]\<rparr> else pd)"

definition parse_line ::
  "(string \<Rightarrow> (string \<times> string) option) \<Rightarrow> parsed_data \<times> bool \<times> parsed_diff \<Rightarrow> string
   \<Rightarrow> parsed_data \<times> bool \<times> parsed_diff" where
  "parse_line comment_match state raw =
     (let line = py_strip raw; pd = fst state; sec = fst (snd state); cur = snd (snd state)
      in if line = [] then state
         else if startswith ''#'' line
         then (case comment_match line of
                 None \<Rightarrow> state
               | Some (k, v) \<Rightarrow>
                   (pd\<lparr>pr_metadata := dict_set (metadata_key k) v (pr_metadata pd)\<rparr>, sec, cur))
         else if startswith ''asset_id:'' line
         then (pd\<lparr>pr_asset_id := Some (py_strip (after_colon line))\<rparr>, sec, cur)
         else if startswith ''note:'' line
         then (pd\<lparr>pr_note := Some (py_strip (after_colon line))\<rparr>, sec, cur)
         else if line = ''differences:'' then (pd, True, cur)
         else if sec
         then (if startswith ''- field_name:'' line
               then (push_diff cur pd, sec,
                     empty_diff\<lparr>pd_field_name := Some (py_strip (after_colon line))\<rparr>)
               else if startswith ''zabbix_value:'' line
               then (pd, sec,
                     cur\<lparr>pd_zabbix_value := Some (strip_quotes (py_strip (after_colon line)))\<rparr>)
               else if startswith ''topdesk_value:'' line
               then (pd, sec,
                     cur\<lparr>pd_topdesk_value := Some (strip_quotes (py_strip (after_colon line)))\<rparr>)
               else state)
         else state)"

definition parse_dif_file :: "(string \<Rightarrow> (string \<times> string) option) \<Rightarrow> string \<Rightarrow> parsed_data" where
  "parse_dif_file comment_match text =
     (let final = foldl (parse_line comment_match) (initial_parsed, False, empty_diff)
                    (py_readlines text)
      in push_diff (snd (snd final)) (fst final))"

text \<open>What a document's difference list is when read back exactly.\<close>

definition entry_as_parsed :: "dif_entry \<Rightarrow> parsed_diff" where
  "entry_as_parsed e =
     \<lparr>pd_field_name = Some (entry_field_name e),
      pd_zabbix_value = Some (py_str (entry_zabbix_value e)),
      pd_topdesk_value = Some (py_str (entry_topdesk_value e))\<rparr>"

text \<open>
  A string survives a line of the file when it has no line break; it survives \<open>strip()\<close>
  when it is tight, and \<open>strip('"')\<close> when it has no double quote at either end.
\<close>

definition single_line :: "string \<Rightarrow> bool" where
  "single_line s = (CHR 0x0A \<notin> set s \<and> CHR 0x0D \<notin> set s)"

definition unquoted :: "string \<Rightarrow> bool" where
  "unquoted s = (s = [] \<or> (hd s \<noteq> DQ \<and> last s \<noteq> DQ))"

definition plain_name :: "string \<Rightarrow> bool" where
  "plain_name s = (single_line s \<and> tight s)"

definition plain_value :: "pyval \<Rightarrow> bool" where
  "plain_value v = (single_line (py_str v) \<and> unquoted (py_str v))"

text \<open>An entry of a document whose three strings survive the file.\<close>

definition plain_entry :: "dif_entry \<Rightarrow> bool" where
  "plain_entry e =
     (plain_name (entry_field_name e) \<and> plain_value (entry_zabbix_value e)
      \<and> plain_value (entry_topdesk_value e))"

text \<open>Two loop states agree on everything but the metadata.\<close>

definition same_core ::
  "parsed_data \<times> bool \<times> parsed_diff \<Rightarrow> parsed_data \<times> bool \<times> parsed_diff \<Rightarrow> bool" where
  "same_core st st' =
     (pr_asset_id (fst st') = pr_asset_id (fst st) \<and> pr_note (fst st') = pr_note (fst st)
      \<and> pr_differences (fst st') = pr_differences (fst st) \<and> snd st' = snd st)"


subsection \<open>Lines of the file\<close>

text \<open>A written line \<open>indent prefix x\<close>, where the prefix ends with the colon and a space.\<close>

lemma strip_keyed_line:
  assumes x: "tight x" and ind: "\<forall>c\<in>set ind. py_isspace c"
    and p: "p \<noteq> []" "\<not> py_isspace (hd p)" "\<not> py_isspace (last p)"
  shows "py_strip (ind @ p @ '' '' @ x @ [CHR 0x0A]) = p @ (if x = [] then [] else '' '' @ x)"
proof (cases "x = []")
  case True
  have "py_strip (ind @ p @ '' '' @ x @ [CHR 0x0A]) = py_strip (p @ [CHR '' '', CHR 0x0A])"
    using True ind by (simp add: py_strip_indent)
  also have "\<dots> = py_strip p"
    using p by (intro py_strip_trailing) (simp_all add: isspace_LF isspace_space)
  also have "\<dots> = p" using p by (intro py_strip_tight) (simp add: tight_def)
  finally show ?thesis using True by simp
next
  case False
  let ?s = "p @ '' '' @ x"
  have hd: "hd ?s = hd p" using p(1) by simp
  have last: "last ?s = last x" using False by simp
  have t: "tight ?s" using x False p hd last by (simp add: tight_def)
  have "py_strip (ind @ p @ '' '' @ x @ [CHR 0x0A]) = py_strip (?s @ [CHR 0x0A])"
    using ind py_strip_indent [of ind "?s @ [CHR 0x0A]"] by simp
  also have "\<dots> = py_strip ?s"
    using p hd by (intro py_strip_trailing) (simp_all add: isspace_LF)
  also have "\<dots> = ?s" using t by (rule py_strip_tight)
  finally show ?thesis using False by simp
qed

lemma after_colon_prefix: "CHR '':'' \<notin> set p0 \<Longrightarrow> after_colon (p0 @ CHR '':'' # r) = r"
proof -
  assume "CHR '':'' \<notin> set p0"
  then have "dropWhile (\<lambda>c. c \<noteq> CHR '':'') (p0 @ CHR '':'' # r) = CHR '':'' # r"
    by (induction p0) auto
  then show ?thesis by (simp add: after_colon_def)
qed

lemma strip_value_part: "tight x \<Longrightarrow> py_strip (if x = [] then [] else '' '' @ x) = x"
proof (cases "x = []")
  case True
  then show ?thesis by (simp add: py_strip_Nil)
next
  case False
  assume "tight x"
  then have "py_strip x = x" by (rule py_strip_tight)
  then show ?thesis using False py_strip_indent [of "'' ''" x] by (simp add: isspace_space)
qed

lemma strip_quotes_quoted: "unquoted v \<Longrightarrow> strip_quotes (DQ # v @ [DQ]) = v"
proof (cases v)
  case Nil
  then show ?thesis by (simp add: strip_quotes_def)
next
  case (Cons c cs)
  assume "unquoted v"
  then have h: "c \<noteq> DQ" and l: "last v \<noteq> DQ" using Cons by (simp_all add: unquoted_def)
  have "dropWhile (\<lambda>c. c = DQ) (DQ # v @ [DQ]) = v @ [DQ]" using Cons h by simp
  moreover have "dropWhile (\<lambda>c. c = DQ) (rev (v @ [DQ])) = rev v"
  proof (cases v rule: rev_cases)
    case Nil
    then show ?thesis using Cons by simp
  next
    case (snoc ys y)
    then show ?thesis using l by simp
  qed
  ultimately show ?thesis by (simp add: strip_quotes_def)
qed

lemma tight_quoted: "tight (DQ # v @ [DQ])"
  by (simp add: tight_def DQ_def py_isspace_def)

subsection \<open>Reading lines\<close>

lemma py_readlines_line:
  "single_line l \<Longrightarrow> py_readlines (l @ CHR 0x0A # rest) = (l @ [CHR 0x0A]) # py_readlines rest"
  by (induction l) (auto simp: single_line_def)

lemma py_readlines_lines:
  "\<forall>l\<in>set ls. single_line l \<Longrightarrow>
     py_readlines (concat (map (\<lambda>l. l @ [CHR 0x0A]) ls)) = map (\<lambda>l. l @ [CHR 0x0A]) ls"
  by (induction ls) (simp_all add: py_readlines_line)

subsection \<open>Numerals have no line break\<close>

lemma decimal_not_break: "is_decimal c \<Longrightarrow> c \<noteq> CHR 0x0A \<and> c \<noteq> CHR 0x0D"
  by (auto simp: is_decimal_def)

lemma single_line_decimal: "\<forall>c\<in>set s. is_decimal c \<Longrightarrow> single_line s"
  using decimal_not_break by (auto simp: single_line_def)

lemma single_line_str_nat: "single_line (str_nat n)"
  by (rule single_line_decimal) (rule str_nat_decimal)

lemma single_line_append: "single_line (a @ b) = (single_line a \<and> single_line b)"
  by (auto simp: single_line_def)

lemma single_line_Cons: "single_line (c # s) = (c \<noteq> CHR 0x0A \<and> c \<noteq> CHR 0x0D \<and> single_line s)"
  by (auto simp: single_line_def)

lemma single_line_Nil: "single_line []"
  by (simp add: single_line_def)

lemma single_line_zero_pad: "single_line (zero_pad w n)"
  by (simp add: zero_pad_def single_line_append single_line_str_nat)
     (simp add: single_line_def)

lemma single_line_isoformat: "single_line (isoformat d)"
  by (simp add: isoformat_def single_line_append single_line_Cons single_line_Nil single_line_zero_pad)

lemma single_line_score_text: "single_line (score_text x)"
proof -
  have d: "single_line [digit_char (k mod 10)]" for k
    by (rule single_line_decimal) (simp add: digit_char_decimal)
  have e: "single_line [digit_char (k mod 100 div 10)]" for k
    by (rule single_line_decimal) (simp add: digit_char_decimal)
  show ?thesis
    using d e
    by (simp add: score_text_def Let_def single_line_append single_line_Cons single_line_Nil
        single_line_str_nat)
qed


subsection \<open>One line at a time\<close>

lemma keyed_line:
  assumes "tight x" and "\<forall>c\<in>set ind. py_isspace c"
    and "k \<noteq> []" and "\<not> py_isspace (hd k)" and "CHR '':'' \<notin> set k"
  shows "py_strip (ind @ k @ '': '' @ x @ [CHR 0x0A]) = k @ '':'' @ (if x = [] then [] else '' '' @ x)"
    and "py_strip (after_colon (k @ '':'' @ (if x = [] then [] else '' '' @ x))) = x"
proof -
  have "py_strip (ind @ (k @ '':'') @ '' '' @ x @ [CHR 0x0A])
          = (k @ '':'') @ (if x = [] then [] else '' '' @ x)"
    using assms by (intro strip_keyed_line) (simp_all add: py_isspace_def)
  then show "py_strip (ind @ k @ '': '' @ x @ [CHR 0x0A]) = k @ '':'' @ (if x = [] then [] else '' '' @ x)"
    by simp
  have "after_colon (k @ CHR '':'' # (if x = [] then [] else '' '' @ x)) = (if x = [] then [] else '' '' @ x)"
    using assms(5) by (rule after_colon_prefix)
  then show "py_strip (after_colon (k @ '':'' @ (if x = [] then [] else '' '' @ x))) = x"
    using strip_value_part [OF assms(1)] by simp
qed

lemma parse_line_asset_id:
  assumes "tight a"
  shows "parse_line cm (pd, sec, cur) (''asset_id: '' @ a @ [CHR 0x0A])
           = (pd\<lparr>pr_asset_id := Some a\<rparr>, sec, cur)"
proof -
  let ?line = "''asset_id'' @ '':'' @ (if a = [] then [] else '' '' @ a)"
  have l: "py_strip (''asset_id: '' @ a @ [CHR 0x0A]) = ?line"
    using keyed_line(1) [OF assms, of "[]" "''asset_id''"] by (simp add: py_isspace_def)
  have v: "py_strip (after_colon ?line) = a"
    using keyed_line(2) [OF assms, of "[]" "''asset_id''"] by (simp add: py_isspace_def)
  show ?thesis
    unfolding parse_line_def l Let_def using v by (simp add: startswith_def)
qed

lemma parse_line_note:
  assumes "tight n"
  shows "parse_line cm (pd, sec, cur) (''note: '' @ n @ [CHR 0x0A])
           = (pd\<lparr>pr_note := Some n\<rparr>, sec, cur)"
proof -
  let ?line = "''note'' @ '':'' @ (if n = [] then [] else '' '' @ n)"
  have l: "py_strip (''note: '' @ n @ [CHR 0x0A]) = ?line"
    using keyed_line(1) [OF assms, of "[]" "''note''"] by (simp add: py_isspace_def)
  have v: "py_strip (after_colon ?line) = n"
    using keyed_line(2) [OF assms, of "[]" "''note''"] by (simp add: py_isspace_def)
  show ?thesis
    unfolding parse_line_def l Let_def using v by (simp add: startswith_def)
qed

lemma parse_line_differences:
  "parse_line cm (pd, sec, cur) (''differences:'' @ [CHR 0x0A]) = (pd, True, cur)"
proof -
  have "py_strip (''differences:'' @ [CHR 0x0A]) = py_strip ''differences:''"
    by (intro py_strip_trailing) (simp_all add: py_isspace_def)
  also have "\<dots> = ''differences:''" by (intro py_strip_tight) (simp add: tight_def py_isspace_def)
  finally have l: "py_strip (''differences:'' @ [CHR 0x0A]) = ''differences:''" .
  show ?thesis unfolding parse_line_def l Let_def by (simp add: startswith_def)
qed

lemma parse_line_field_name:
  assumes "tight f"
  shows "parse_line cm (pd, True, cur) (''  - field_name: '' @ f @ [CHR 0x0A])
           = (push_diff cur pd, True, empty_diff\<lparr>pd_field_name := Some f\<rparr>)"
proof -
  let ?line = "''- field_name'' @ '':'' @ (if f = [] then [] else '' '' @ f)"
  have l: "py_strip (''  - field_name: '' @ f @ [CHR 0x0A]) = ?line"
    using keyed_line(1) [OF assms, of "''  ''" "''- field_name''"] by (simp add: py_isspace_def)
  have v: "py_strip (after_colon ?line) = f"
    using keyed_line(2) [OF assms, of "[]" "''- field_name''"] by (simp add: py_isspace_def)
  show ?thesis
    unfolding parse_line_def l Let_def using v by (simp add: startswith_def)
qed

lemma parse_line_zabbix_value:
  assumes "unquoted v"
  shows "parse_line cm (pd, True, cur) (''    zabbix_value: '' @ [DQ] @ v @ [DQ] @ [CHR 0x0A])
           = (pd, True, cur\<lparr>pd_zabbix_value := Some v\<rparr>)"
proof -
  let ?x = "DQ # v @ [DQ]"
  let ?line = "''zabbix_value'' @ '':'' @ '' '' @ ?x"
  have t: "tight ?x" by (rule tight_quoted)
  have l: "py_strip (''    zabbix_value: '' @ [DQ] @ v @ [DQ] @ [CHR 0x0A]) = ?line"
    using keyed_line(1) [OF t, of "''    ''" "''zabbix_value''"] by (simp add: py_isspace_def)
  have v: "strip_quotes (py_strip (after_colon ?line)) = v"
    using keyed_line(2) [OF t, of "[]" "''zabbix_value''"] strip_quotes_quoted [OF assms]
    by (simp add: py_isspace_def)
  show ?thesis
    unfolding parse_line_def l Let_def using v by (simp add: startswith_def)
qed

lemma parse_line_topdesk_value:
  assumes "unquoted v"
  shows "parse_line cm (pd, True, cur) (''    topdesk_value: '' @ [DQ] @ v @ [DQ] @ [CHR 0x0A])
           = (pd, True, cur\<lparr>pd_topdesk_value := Some v\<rparr>)"
proof -
  let ?x = "DQ # v @ [DQ]"
  let ?line = "''topdesk_value'' @ '':'' @ '' '' @ ?x"
  have t: "tight ?x" by (rule tight_quoted)
  have l: "py_strip (''    topdesk_value: '' @ [DQ] @ v @ [DQ] @ [CHR 0x0A]) = ?line"
    using keyed_line(1) [OF t, of "''    ''" "''topdesk_value''"] by (simp add: py_isspace_def)
  have v: "strip_quotes (py_strip (after_colon ?line)) = v"
    using keyed_line(2) [OF t, of "[]" "''topdesk_value''"] strip_quotes_quoted [OF assms]
    by (simp add: py_isspace_def)
  show ?thesis
    unfolding parse_line_def l Let_def using v by (simp add: startswith_def)
qed

lemma same_core_refl: "same_core st st"
  by (simp add: same_core_def)

lemma same_core_trans: "same_core a b \<Longrightarrow> same_core b c \<Longrightarrow> same_core a c"
  by (simp add: same_core_def)

lemma parse_line_blank: "parse_line cm st [CHR 0x0A] = st"
proof -
  have l: "py_strip [CHR 0x0A] = []" by (simp add: py_strip_def py_rstrip_def py_isspace_def)
  show ?thesis unfolding parse_line_def l Let_def by simp
qed

lemma dropWhile_keeps_last: "\<not> P c \<Longrightarrow> \<exists>ys. dropWhile P (xs @ [c]) = ys @ [c]"
  by (induction xs) auto

lemma py_strip_hash: "\<exists>r'. py_strip (CHR ''#'' # r) = CHR ''#'' # r'"
proof -
  have ns: "\<not> py_isspace (CHR ''#'')" by (simp add: py_isspace_def)
  from dropWhile_keeps_last [of py_isspace "CHR ''#''" "rev r", OF ns]
  obtain ys where ys: "dropWhile py_isspace (rev r @ [CHR ''#'']) = ys @ [CHR ''#'']" ..
  have "py_rstrip (CHR ''#'' # r) = rev (dropWhile py_isspace (rev r @ [CHR ''#'']))"
    by (simp add: py_rstrip_def)
  also have "\<dots> = CHR ''#'' # rev ys" by (simp only: ys rev_append rev.simps append_Nil append_Cons)
  finally have r: "py_rstrip (CHR ''#'' # r) = CHR ''#'' # rev ys" .
  have "py_strip (CHR ''#'' # r) = py_rstrip (CHR ''#'' # r)"
    using ns by (simp add: py_strip_def)
  then show ?thesis using r by simp
qed

lemma parse_line_comment: "same_core st (parse_line cm st (CHR ''#'' # r))"
proof -
  obtain r' where l: "py_strip (CHR ''#'' # r) = CHR ''#'' # r'" using py_strip_hash by blast
  show ?thesis
    unfolding parse_line_def l Let_def
    by (cases "cm (CHR ''#'' # r')") (auto simp: startswith_def same_core_def)
qed

lemma parse_lines_comments:
  "\<forall>l\<in>set ls. l = [] \<or> hd l = CHR ''#'' \<Longrightarrow>
     same_core st (foldl (parse_line cm) st (map (\<lambda>l. l @ [CHR 0x0A]) ls))"
proof (induction ls arbitrary: st)
  case Nil
  show ?case by (simp add: same_core_refl)
next
  case (Cons l ls)
  have "same_core st (parse_line cm st (l @ [CHR 0x0A]))"
  proof (cases l)
    case Nil
    then show ?thesis by (simp add: parse_line_blank same_core_refl)
  next
    case (Cons c cs)
    then have "c = CHR ''#''" using Cons.prems by simp
    then show ?thesis using Cons parse_line_comment [of st cm "cs @ [CHR 0x0A]"] by simp
  qed
  moreover have "same_core (parse_line cm st (l @ [CHR 0x0A]))
      (foldl (parse_line cm) (parse_line cm st (l @ [CHR 0x0A])) (map (\<lambda>l. l @ [CHR 0x0A]) ls))"
    using Cons.prems by (intro Cons.IH) simp
  ultimately show ?case by (auto intro: same_core_trans)
qed

subsection \<open>The block of differences\<close>

lemma parse_entry:
  assumes "tight (entry_field_name e)" "unquoted (py_str (entry_zabbix_value e))"
    "unquoted (py_str (entry_topdesk_value e))"
  shows "foldl (parse_line cm) (pd, True, cur) (map (\<lambda>l. l @ [CHR 0x0A]) (entry_lines e))
           = (push_diff cur pd, True, entry_as_parsed e)"
proof -
  have "foldl (parse_line cm) (pd, True, cur) (map (\<lambda>l. l @ [CHR 0x0A]) (entry_lines e))
      = (push_diff cur pd, True,
         empty_diff\<lparr>pd_field_name := Some (entry_field_name e),
                    pd_zabbix_value := Some (py_str (entry_zabbix_value e)),
                    pd_topdesk_value := Some (py_str (entry_topdesk_value e))\<rparr>)"
    by (simp only: entry_lines_def list.map foldl_Cons foldl_Nil append_assoc
        parse_line_field_name [OF assms(1)] parse_line_zabbix_value [OF assms(2)]
        parse_line_topdesk_value [OF assms(3)])
  then show ?thesis by (simp add: entry_as_parsed_def empty_diff_def)
qed

lemma entry_as_parsed_not_empty: "entry_as_parsed e \<noteq> empty_diff"
  by (simp add: entry_as_parsed_def empty_diff_def)

lemma parse_entries:
  assumes "\<forall>e\<in>set es. tight (entry_field_name e) \<and> unquoted (py_str (entry_zabbix_value e))
             \<and> unquoted (py_str (entry_topdesk_value e))"
  shows "\<exists>pd' cur'. foldl (parse_line cm) (pd, True, cur)
              (map (\<lambda>l. l @ [CHR 0x0A]) (concat (map entry_lines es))) = (pd', True, cur')
           \<and> push_diff cur' pd'
               = (push_diff cur pd)\<lparr>pr_differences :=
                    pr_differences (push_diff cur pd) @ map entry_as_parsed es\<rparr>"
  using assms
proof (induction es arbitrary: pd cur)
  case Nil
  show ?case by simp
next
  case (Cons e es)
  have step: "foldl (parse_line cm) (pd, True, cur) (map (\<lambda>l. l @ [CHR 0x0A]) (entry_lines e))
           = (push_diff cur pd, True, entry_as_parsed e)"
    using Cons.prems by (intro parse_entry) simp_all
  obtain pd' cur' where rest: "foldl (parse_line cm) (push_diff cur pd, True, entry_as_parsed e)
              (map (\<lambda>l. l @ [CHR 0x0A]) (concat (map entry_lines es))) = (pd', True, cur')"
      and fl: "push_diff cur' pd'
               = (push_diff (entry_as_parsed e) (push_diff cur pd))\<lparr>pr_differences :=
                    pr_differences (push_diff (entry_as_parsed e) (push_diff cur pd))
                    @ map entry_as_parsed es\<rparr>"
    using Cons.IH [of "push_diff cur pd" "entry_as_parsed e"] Cons.prems by auto
  have "push_diff (entry_as_parsed e) (push_diff cur pd)
      = (push_diff cur pd)\<lparr>pr_differences := pr_differences (push_diff cur pd) @ [entry_as_parsed e]\<rparr>"
    by (simp add: push_diff_def [of "entry_as_parsed e"] entry_as_parsed_not_empty)
  then have "push_diff cur' pd'
      = (push_diff cur pd)\<lparr>pr_differences :=
           pr_differences (push_diff cur pd) @ map entry_as_parsed (e # es)\<rparr>"
    using fl by simp
  then show ?case using step rest by (simp add: foldl_append)
qed


subsection \<open>The whole file\<close>

lemma push_diff_empty: "push_diff empty_diff pd = pd"
  by (simp add: push_diff_def)

lemma push_diff_fields:
  "pr_asset_id (push_diff cur pd) = pr_asset_id pd" "pr_note (push_diff cur pd) = pr_note pd"
  by (simp_all add: push_diff_def)

lemma same_core_push:
  assumes "same_core st st'"
  shows "pr_asset_id (push_diff (snd (snd st')) (fst st')) = pr_asset_id (push_diff (snd (snd st)) (fst st))"
    and "pr_note (push_diff (snd (snd st')) (fst st')) = pr_note (push_diff (snd (snd st)) (fst st))"
    and "pr_differences (push_diff (snd (snd st')) (fst st'))
           = pr_differences (push_diff (snd (snd st)) (fst st))"
  using assms by (simp_all add: same_core_def push_diff_def)

lemma note_plain:
  assumes "dc_note (make_dif_content now a ds) = Some n"
  shows "tight n \<and> single_line n"
proof -
  have "n = ''Asset exists only in Topdesk system'' \<or> n = ''Asset exists only in Zabbix system''"
    using assms by (auto simp: make_dif_content_def split: option.splits if_splits)
  then show ?thesis by (auto simp: tight_def single_line_def py_isspace_def)
qed

lemma trailer_lines_comments: "\<forall>l\<in>set (trailer_lines dc). l = [] \<or> hd l = CHR ''#''"
  by (auto simp: trailer_lines_def split: option.splits)

lemma trailer_lines_single: "single_line (dc_timestamp dc) \<Longrightarrow> \<forall>l\<in>set (trailer_lines dc). single_line l"
  by (auto simp: trailer_lines_def single_line_append single_line_Cons single_line_Nil
      single_line_str_nat single_line_score_text split: option.splits)

lemma entry_lines_single:
  assumes "single_line (entry_field_name e)" "single_line (py_str (entry_zabbix_value e))"
    "single_line (py_str (entry_topdesk_value e))"
  shows "\<forall>l\<in>set (entry_lines e). single_line l"
  using assms
  by (simp add: entry_lines_def single_line_append single_line_Cons single_line_Nil DQ_def)

lemma parse_written_document:
  assumes a: "plain_name (dc_asset_id dc)"
    and es: "\<forall>e\<in>set (dc_differences dc). plain_entry e"
    and n: "\<forall>n. dc_note dc = Some n \<longrightarrow> tight n \<and> single_line n"
    and ts: "single_line (dc_timestamp dc)"
  shows "pr_asset_id (parse_dif_file cm (dif_file_text dc)) = Some (dc_asset_id dc)
       \<and> pr_note (parse_dif_file cm (dif_file_text dc)) = dc_note dc
       \<and> pr_differences (parse_dif_file cm (dif_file_text dc))
           = map entry_as_parsed (dc_differences dc)"
proof -
  let ?LF = "\<lambda>l. l @ [CHR 0x0A]"
  let ?head = "[''asset_id: '' @ dc_asset_id dc]"
  let ?note = "case dc_note dc of None \<Rightarrow> [] | Some n \<Rightarrow> [''note: '' @ n]"
  let ?ents = "concat (map entry_lines (dc_differences dc))"
  let ?f = "foldl (parse_line cm)"
  have lines: "dif_file_lines dc = ?head @ ?note @ [''differences:''] @ ?ents @ trailer_lines dc"
    by (simp add: dif_file_lines_def)
  have "\<forall>l\<in>set ?ents. single_line l"
    using es entry_lines_single by (auto simp: plain_entry_def plain_name_def plain_value_def)
  moreover have "\<forall>l\<in>set ?note. single_line l"
    using n by (auto simp: single_line_append single_line_Cons single_line_Nil split: option.splits)
  moreover have "\<forall>l\<in>set ?head. single_line l"
    using a by (simp add: plain_name_def single_line_append single_line_Cons single_line_Nil)
  moreover have "single_line ''differences:''" by (simp add: single_line_def)
  ultimately have "\<forall>l\<in>set (dif_file_lines dc). single_line l"
    using trailer_lines_single [OF ts] unfolding lines by auto
  then have read: "py_readlines (dif_file_text dc) = map ?LF (dif_file_lines dc)"
    unfolding dif_file_text_def by (rule py_readlines_lines)
  let ?st0 = "(initial_parsed, False, empty_diff)"
  let ?pd1 = "initial_parsed\<lparr>pr_asset_id := Some (dc_asset_id dc)\<rparr>"
  let ?pd2 = "?pd1\<lparr>pr_note := dc_note dc\<rparr>"
  have s1: "?f ?st0 (map ?LF ?head) = (?pd1, False, empty_diff)"
    using a parse_line_asset_id [of "dc_asset_id dc" cm initial_parsed False empty_diff]
    by (simp add: plain_name_def)
  have s2: "?f (?pd1, False, empty_diff) (map ?LF ?note) = (?pd2, False, empty_diff)"
  proof (cases "dc_note dc")
    case None
    then show ?thesis by (simp add: initial_parsed_def)
  next
    case (Some m)
    then have "tight m" using n by simp
    then show ?thesis using Some parse_line_note [of m cm ?pd1 False empty_diff] by simp
  qed
  have s3: "?f (?pd2, False, empty_diff) (map ?LF [''differences:'']) = (?pd2, True, empty_diff)"
    using parse_line_differences [of cm ?pd2 False empty_diff] by simp
  have "\<forall>e\<in>set (dc_differences dc). tight (entry_field_name e)
          \<and> unquoted (py_str (entry_zabbix_value e)) \<and> unquoted (py_str (entry_topdesk_value e))"
    using es by (simp add: plain_entry_def plain_name_def plain_value_def)
  from parse_entries [OF this, of cm ?pd2 empty_diff]
  obtain pd' cur' where s4: "?f (?pd2, True, empty_diff) (map ?LF ?ents) = (pd', True, cur')"
    and fl: "push_diff cur' pd'
               = ?pd2\<lparr>pr_differences := pr_differences ?pd2 @ map entry_as_parsed (dc_differences dc)\<rparr>"
    by (auto simp: push_diff_empty)
  let ?st5 = "?f (pd', True, cur') (map ?LF (trailer_lines dc))"
  have s5: "same_core (pd', True, cur') ?st5"
    using trailer_lines_comments by (rule parse_lines_comments)
  have all: "?f ?st0 (py_readlines (dif_file_text dc)) = ?st5"
    unfolding read lines map_append foldl_append s1 s2 s3 s4 ..
  have res: "parse_dif_file cm (dif_file_text dc) = push_diff (snd (snd ?st5)) (fst ?st5)"
    unfolding parse_dif_file_def Let_def all ..
  have "pr_asset_id (push_diff (snd (snd ?st5)) (fst ?st5)) = pr_asset_id (push_diff cur' pd')"
    "pr_note (push_diff (snd (snd ?st5)) (fst ?st5)) = pr_note (push_diff cur' pd')"
    "pr_differences (push_diff (snd (snd ?st5)) (fst ?st5)) = pr_differences (push_diff cur' pd')"
    using same_core_push [OF s5] by simp_all
  then show ?thesis unfolding res fl by (simp add: initial_parsed_def)
qed


subsection \<open>Writing and reading back\<close>


lemma make_dif_content_plain:
  assumes "\<forall>d\<in>set differences. field_name d \<noteq> ''_system_presence''
             \<longrightarrow> plain_name (field_name d) \<and> plain_value (zabbix_value d)
                 \<and> plain_value (topdesk_value d)"
  shows "\<forall>e\<in>set (dc_differences (make_dif_content now asset_id differences)). plain_entry e"
  using assms by (auto simp: make_dif_content_def plain_entry_def)

text \<open>
  C2 (as amended). When the asset identifier and the field names have no line break and
  no whitespace at either end, and the values (in their string form) have no line break,
  parsing the text that \<open>generate_dif_file\<close> writes gives back the document's asset
  identifier, its note (or none) and its differences in order, each with its field name
  and the string form of its two values; for string values these are the values
  themselves. The statement is made for values with no double quote at either end and
  says nothing about the others. The comment pattern may match as it will, and the file
  is written whenever it can be opened.
\<close>

theorem dif_round_trip:
  "(plain_name asset_id
     \<and> (\<forall>d\<in>set differences. field_name d \<noteq> ''_system_presence''
           \<longrightarrow> plain_name (field_name d) \<and> plain_value (zabbix_value d)
               \<and> plain_value (topdesk_value d))
     \<and> generate_dif_file fs dir now asset_id differences = Inr (path, written)
    \<longrightarrow> pr_asset_id (parse_dif_file cm written)
          = Some (dc_asset_id (make_dif_content now asset_id differences))
        \<and> pr_note (parse_dif_file cm written)
          = dc_note (make_dif_content now asset_id differences)
        \<and> pr_differences (parse_dif_file cm written)
          = map entry_as_parsed (dc_differences (make_dif_content now asset_id differences)))
   \<and> (can_write fs (path_join fs dir (asset_id @ ''.dif''))
        \<longrightarrow> (\<exists>w. generate_dif_file fs dir now asset_id differences
                   = Inr (path_join fs dir (asset_id @ ''.dif''), w)))
   \<and> entry_as_parsed
        \<lparr>entry_field_name = f, entry_zabbix_value = PStr z, entry_topdesk_value = PStr t\<rparr>
      = \<lparr>pd_field_name = Some f, pd_zabbix_value = Some z, pd_topdesk_value = Some t\<rparr>"
proof (intro conjI impI)
  show "entry_as_parsed
        \<lparr>entry_field_name = f, entry_zabbix_value = PStr z, entry_topdesk_value = PStr t\<rparr>
      = \<lparr>pd_field_name = Some f, pd_zabbix_value = Some z, pd_topdesk_value = Some t\<rparr>"
    by (simp add: entry_as_parsed_def)
next
  assume "can_write fs (path_join fs dir (asset_id @ ''.dif''))"
  then show "\<exists>w. generate_dif_file fs dir now asset_id differences
                   = Inr (path_join fs dir (asset_id @ ''.dif''), w)"
    by (simp add: generate_dif_file_def Let_def)
next
  let ?dc = "make_dif_content now asset_id differences"
  assume h: "plain_name asset_id
     \<and> (\<forall>d\<in>set differences. field_name d \<noteq> ''_system_presence''
           \<longrightarrow> plain_name (field_name d) \<and> plain_value (zabbix_value d)
               \<and> plain_value (topdesk_value d))
     \<and> generate_dif_file fs dir now asset_id differences = Inr (path, written)"
  have a: "plain_name (dc_asset_id ?dc)" using h by (simp add: make_dif_content_def)
  have es: "\<forall>e\<in>set (dc_differences ?dc). plain_entry e"
    using h by (intro make_dif_content_plain) simp
  have n: "\<forall>n. dc_note ?dc = Some n \<longrightarrow> tight n \<and> single_line n"
    using note_plain by blast
  have ts: "single_line (dc_timestamp ?dc)"
    by (simp add: make_dif_content_def single_line_isoformat)
  have w: "written = dif_file_text ?dc"
    using h by (simp add: generate_dif_file_def Let_def split: if_splits)
  note r = parse_written_document [OF a es n ts, of cm]
  show "pr_asset_id (parse_dif_file cm written) = Some (dc_asset_id ?dc)"
    unfolding w using r by blast
  show "pr_note (parse_dif_file cm written) = dc_note ?dc"
    unfolding w using r by blast
  show "pr_differences (parse_dif_file cm written) = map entry_as_parsed (dc_differences ?dc)"
    unfolding w using r by blast
qed

theorem dif_round_trip_witness:
  "(\<exists>written. generate_dif_file plain_fs ''differences''
      \<lparr>dt_year = 2024, dt_month = 3, dt_day = 9, dt_hour = 7, dt_minute = 5, dt_second = 1,
       dt_microsecond = 0\<rparr> ''ASSET004''
      [\<lparr>field_name = ''_system_presence'', zabbix_value = PStr ''absent'',
        topdesk_value = PStr ''present'', difference_type = ''asset_missing''\<rparr>,
       \<lparr>field_name = ''os'', zabbix_value = PStr ''null'',
        topdesk_value = PStr ''VMware ESXi'', difference_type = ''missing_in_zabbix''\<rparr>]
      = Inr (''differences/ASSET004.dif'', written)
    \<and> pr_asset_id (parse_dif_file (\<lambda>l. None) written) = Some ''ASSET004''
    \<and> pr_note (parse_dif_file (\<lambda>l. None) written) = Some ''Asset exists only in Topdesk system''
    \<and> pr_differences (parse_dif_file (\<lambda>l. None) written)
       = [\<lparr>pd_field_name = Some ''os'', pd_zabbix_value = Some ''null'',
           pd_topdesk_value = Some ''VMware ESXi''\<rparr>])"
proof -
  let ?now = "\<lparr>dt_year = 2024, dt_month = 3, dt_day = 9, dt_hour = 7, dt_minute = 5, dt_second = 1,
       dt_microsecond = 0\<rparr>"
  let ?ds = "[\<lparr>field_name = ''_system_presence'', zabbix_value = PStr ''absent'',
        topdesk_value = PStr ''present'', difference_type = ''asset_missing''\<rparr>,
       \<lparr>field_name = ''os'', zabbix_value = PStr ''null'',
        topdesk_value = PStr ''VMware ESXi'', difference_type = ''missing_in_zabbix''\<rparr>]"
  have a: "plain_name ''ASSET004''"
    by (simp add: plain_name_def single_line_def tight_def py_isspace_def)
  have d: "\<forall>d\<in>set ?ds. field_name d \<noteq> ''_system_presence''
           \<longrightarrow> plain_name (field_name d) \<and> plain_value (zabbix_value d)
               \<and> plain_value (topdesk_value d)"
    by (simp add: plain_name_def plain_value_def single_line_def tight_def unquoted_def
        py_isspace_def DQ_def)
  have doc: "dc_asset_id (make_dif_content ?now ''ASSET004'' ?ds) = ''ASSET004''"
    "dc_note (make_dif_content ?now ''ASSET004'' ?ds) = Some ''Asset exists only in Topdesk system''"
    "map entry_as_parsed (dc_differences (make_dif_content ?now ''ASSET004'' ?ds))
       = [\<lparr>pd_field_name = Some ''os'', pd_zabbix_value = Some ''null'',
           pd_topdesk_value = Some ''VMware ESXi''\<rparr>]"
    by (simp_all add: make_dif_content_def find_asset_missing_def entry_as_parsed_def)
  have p: "path_join plain_fs ''differences'' (''ASSET004'' @ ''.dif'') = ''differences/ASSET004.dif''"
    by (simp add: plain_fs_def)
  have cw: "can_write plain_fs (path_join plain_fs ''differences'' (''ASSET004'' @ ''.dif''))"
    by (simp add: plain_fs_def)
  note inst = dif_round_trip [where asset_id = "''ASSET004''" and differences = ?ds
      and cm = "\<lambda>l. None" and dir = "''differences''" and now = ?now and fs = plain_fs]
  obtain w where w: "generate_dif_file plain_fs ''differences'' ?now ''ASSET004'' ?ds
                       = Inr (''differences/ASSET004.dif'', w)"
    using inst [THEN conjunct2, THEN conjunct1, THEN mp, OF cw] unfolding p by blast
  have "pr_asset_id (parse_dif_file (\<lambda>l. None) w) = Some ''ASSET004''
        \<and> pr_note (parse_dif_file (\<lambda>l. None) w) = Some ''Asset exists only in Topdesk system''
        \<and> pr_differences (parse_dif_file (\<lambda>l. None) w)
           = [\<lparr>pd_field_name = Some ''os'', pd_zabbix_value = Some ''null'',
               pd_topdesk_value = Some ''VMware ESXi''\<rparr>]"
    using inst [where path = "''differences/ASSET004.dif''" and written = w, THEN conjunct1,
                THEN mp, OF conjI [OF a conjI [OF d w]]]
    unfolding doc .
  then show ?thesis using w by blast
qed

text \<open>
  C2 as stated fails for arbitrary string values: the format has one line per value, so
  of the two-line value \<open>rack\<close>, \<open>A\<close> only the first line is read back.
\<close>

theorem dif_round_trip_loses_second_line:
  "generate_dif_file plain_fs ''differences''
      \<lparr>dt_year = 2024, dt_month = 3, dt_day = 9, dt_hour = 7, dt_minute = 5, dt_second = 1,
       dt_microsecond = 0\<rparr> ''srv-1''
      [\<lparr>field_name = ''location'', zabbix_value = PStr (''rack'' @ [CHR 0x0A] @ ''A''),
        topdesk_value = PStr ''rack A'', difference_type = ''value_mismatch''\<rparr>]
     = Inr (''differences/srv-1.dif'',
            ''asset_id: srv-1'' @ [CHR 0x0A]
            @ ''differences:'' @ [CHR 0x0A]
            @ ''  - field_name: location'' @ [CHR 0x0A]
            @ ''    zabbix_value: '' @ [CHR 0x22] @ ''rack'' @ [CHR 0x0A] @ ''A'' @ [CHR 0x22, CHR 0x0A]
            @ ''    topdesk_value: '' @ [CHR 0x22] @ ''rack A'' @ [CHR 0x22, CHR 0x0A]
            @ [CHR 0x0A]
            @ ''# Generated: 2024-03-09T07:05:01'' @ [CHR 0x0A]
            @ ''# Total differences: 1'' @ [CHR 0x0A]
            @ ''# Similarity score: 0.0%'' @ [CHR 0x0A]
            @ ''# Value mismatches: 1'' @ [CHR 0x0A]
            @ ''# Missing in Zabbix: 0'' @ [CHR 0x0A]
            @ ''# Missing in Topdesk: 0'' @ [CHR 0x0A])
   \<and> pr_differences (parse_dif_file (\<lambda>l. None)
        (''asset_id: srv-1'' @ [CHR 0x0A]
            @ ''differences:'' @ [CHR 0x0A]
            @ ''  - field_name: location'' @ [CHR 0x0A]
            @ ''    zabbix_value: '' @ [CHR 0x22] @ ''rack'' @ [CHR 0x0A] @ ''A'' @ [CHR 0x22, CHR 0x0A]
            @ ''    topdesk_value: '' @ [CHR 0x22] @ ''rack A'' @ [CHR 0x22, CHR 0x0A]
            @ [CHR 0x0A]
            @ ''# Generated: 2024-03-09T07:05:01'' @ [CHR 0x0A]
            @ ''# Total differences: 1'' @ [CHR 0x0A]
            @ ''# Similarity score: 0.0%'' @ [CHR 0x0A]
            @ ''# Value mismatches: 1'' @ [CHR 0x0A]
            @ ''# Missing in Zabbix: 0'' @ [CHR 0x0A]
            @ ''# Missing in Topdesk: 0'' @ [CHR 0x0A]))
     = [\<lparr>pd_field_name = Some ''location'', pd_zabbix_value = Some ''rack'',
         pd_topdesk_value = Some ''rack A''\<rparr>]
   \<and> ''rack'' \<noteq> ''rack'' @ [CHR 0x0A] @ ''A''"
  by code_simp

text \<open>
  Apart from the format, the parser's \<open>strip('"')\<close> takes every double quote at the ends
  of what stands behind the colon, not only the pair that the writer added: the value
  \<open>rack "A"\<close> is read back without its last character.
\<close>

lemma parser_strips_quote_of_value:
  "pr_differences (parse_dif_file (\<lambda>l. None)
      (dif_file_text (make_dif_content
         \<lparr>dt_year = 2024, dt_month = 3, dt_day = 9, dt_hour = 7, dt_minute = 5, dt_second = 1,
          dt_microsecond = 0\<rparr> ''srv-1''
         [\<lparr>field_name = ''location'',
           zabbix_value = PStr (''rack '' @ [CHR 0x22] @ ''A'' @ [CHR 0x22]),
           topdesk_value = PStr ''rack A'', difference_type = ''value_mismatch''\<rparr>])))
     = [\<lparr>pd_field_name = Some ''location'',
         pd_zabbix_value = Some (''rack '' @ [CHR 0x22] @ ''A''),
         pd_topdesk_value = Some ''rack A''\<rparr>]"
  by code_simp

subsection \<open>The similarity score\<close>

lemma py_round2_zero: "py_round2 0 = 0"
  by (simp add: py_round2_def)

lemma similarity_score_distinct_names:
  assumes "find_asset_missing ds = None" and "ds \<noteq> []"
    and "distinct (map field_name ds)"
    and "\<forall>d\<in>set ds. field_name d \<noteq> ''_system_presence''"
  shows "similarity_score ds = Some 0"
proof -
  have f: "filter (\<lambda>d. field_name d \<noteq> ''_system_presence'') ds = ds"
    using assms(4) by (simp add: filter_id_conv)
  have "length (remdups (map field_name ds)) = length ds"
    using assms(3) by (simp add: distinct_remdups_id)
  then show ?thesis
    using assms(1,2) f by (simp add: similarity_score_def Let_def py_round2_zero)
qed

lemma similarity_score_marker: "find_asset_missing ds \<noteq> None \<Longrightarrow> similarity_score ds = None"
  by (cases "find_asset_missing ds") (simp_all add: similarity_score_def)

text \<open>
  C1. The score of a document is computed from the differences alone: with no presence
  marker and distinct field names it is 0, whatever the number of fields compared, and a
  document with a presence marker has no score. For the records \<open>{id: A, ip: 1.1.1.1}\<close>
  and \<open>{id: A, ip: 1.1.1.2}\<close>, where one of the two compared fields differs, the
  document carries the score 0.
\<close>

theorem similarity_score_one_of_two_fields:
  "compare_matched_assets exact_ops default_config (\<lambda>xs. xs)
     [(''id'', PStr ''A''), (''ip'', PStr ''1.1.1.1'')]
     [(''id'', PStr ''A''), (''ip'', PStr ''1.1.1.2'')]
     = Inr [\<lparr>field_name = ''ip'', zabbix_value = PStr ''1.1.1.1'',
              topdesk_value = PStr ''1.1.1.2'', difference_type = ''value_mismatch''\<rparr>]
   \<and> dc_similarity_score (make_dif_content now ''A''
        [\<lparr>field_name = ''ip'', zabbix_value = PStr ''1.1.1.1'',
          topdesk_value = PStr ''1.1.1.2'', difference_type = ''value_mismatch''\<rparr>]) = Some 0"
proof
  show "compare_matched_assets exact_ops default_config (\<lambda>xs. xs)
     [(''id'', PStr ''A''), (''ip'', PStr ''1.1.1.1'')]
     [(''id'', PStr ''A''), (''ip'', PStr ''1.1.1.2'')]
     = Inr [\<lparr>field_name = ''ip'', zabbix_value = PStr ''1.1.1.1'',
              topdesk_value = PStr ''1.1.1.2'', difference_type = ''value_mismatch''\<rparr>]"
    by code_simp
  have "similarity_score
        [\<lparr>field_name = ''ip'', zabbix_value = PStr ''1.1.1.1'',
          topdesk_value = PStr ''1.1.1.2'', difference_type = ''value_mismatch''\<rparr>] = Some 0"
    by (intro similarity_score_distinct_names) (simp_all add: find_asset_missing_def)
  then show "dc_similarity_score (make_dif_content now ''A''
        [\<lparr>field_name = ''ip'', zabbix_value = PStr ''1.1.1.1'',
          topdesk_value = PStr ''1.1.1.2'', difference_type = ''value_mismatch''\<rparr>]) = Some 0"
    by (simp add: make_dif_content_def)
qed



end
